theory Spec2Isabelle
  imports Main
begin

section \<open>Data model of \<open>src/rules/padding.ts\<close>\<close>

text \<open>
  The rule engine of \<open>padding.ts\<close> works on ESTree nodes and ESLint tokens. Both carry a
  character range (\<open>range[0]\<close>, \<open>range[1]\<close>) and a line span (\<open>loc.start.line\<close>,
  \<open>loc.end.line\<close>); the engine reads nothing else of a position.
\<close>

record span =
  range0 :: nat
  range1 :: nat
  start_line :: nat
  end_line :: nat

text \<open>An \<open>AST.Token\<close> or comment: \<open>type\<close>, \<open>value\<close> and its position.\<close>

record token =
  tok_type :: string
  tok_value :: string
  tok_span :: span

text \<open>
  An ESTree \<open>Node\<close>, reduced to what the engine reads: \<open>node.type\<close>, its position,
  \<open>node.parent.type\<close> (absent for a node without parent) and \<open>node.body\<close>, which the
  engine follows on a \<open>LabeledStatement\<close> only.
\<close>

datatype node =
  Node (ntype: string) (nspan: span) (nparent: "string option") (nbody: "node option")

text \<open>A JavaScript exception; the engine can only raise a \<open>TypeError\<close> (a property read on
  \<open>null\<close> or \<open>undefined\<close>).\<close>

datatype error = TypeError

datatype StatementType =
  Any | AfterAllToken | AfterEachToken | BeforeAllToken | BeforeEachToken
  | DescribeToken | ExpectToken | FdescribeToken | FitToken | ItToken | TestToken
  | XdescribeToken | XitToken | XtestToken

text \<open>\<open>type StatementTypes = StatementType | StatementType[]\<close>\<close>

datatype StatementTypes = Single StatementType | Multiple "StatementType list"

datatype PaddingType = Any | Always

record Config =
  paddingType :: PaddingType
  prevStatementType :: StatementTypes
  nextStatementType :: StatementTypes

datatype Scope = Scope (scope_upper: "Scope option") (scope_prevNode: "node option")

text \<open>
  \<open>SourceCode\<close>: the engine and its helpers only ever ask for tokens and comments by
  position, so the source is its \<open>tokensAndComments\<close> array, in source order.
\<close>

record SourceCode =
  tokensAndComments :: "token list"

text \<open>What \<open>fixer.insertTextAfter\<close> returns, and what \<open>ruleContext.report\<close> receives.\<close>

record Fix =
  fix_range :: "nat \<times> nat"
  fix_text :: string

record Report =
  report_node :: node
  report_message :: string
  report_fix :: Fix

record PaddingContext =
  sourceCode :: SourceCode
  configs :: "Config list"

text \<open>
  The mutable part of a \<open>PaddingContext\<close>: the \<open>scope\<close> variable closed over by
  \<open>createScopeInfo\<close> (initially \<open>null\<close>) and the reports \<open>ruleContext\<close> has received so far.
\<close>

record state =
  scope :: "Scope option"
  reports :: "Report list"

section \<open>The token service\<close>

definition isComment :: "token \<Rightarrow> bool" where
  "isComment t = (tok_type t = ''Line'' \<or> tok_type t = ''Block'' \<or> tok_type t = ''Shebang'')"

text \<open>Modelled from the spec: ESLint's \<open>sourceCode.getFirstToken(node)\<close>, "given a node,
  return its first token (kind + text + position)": the first token proper (comments are
  left out by default) that lies within the node's range, \<open>null\<close> when there is none.\<close>

definition inside :: "span \<Rightarrow> token \<Rightarrow> bool" where
  "inside s t = (range0 s \<le> range0 (tok_span t) \<and> range1 (tok_span t) \<le> range1 s)"

definition getFirstToken :: "SourceCode \<Rightarrow> node \<Rightarrow> token option" where
  "getFirstToken sc n =
     (case filter (\<lambda>t. \<not> isComment t \<and> inside (nspan n) t) (tokensAndComments sc) of
        [] \<Rightarrow> None
      | t # _ \<Rightarrow> Some t)"

text \<open>Modelled from the spec: "given two tokens/nodes, return the ordered list of tokens
  (optionally including comments) strictly between them"; \<open>getFirstTokenBetween\<close> with
  \<open>includeComments: true\<close> walks this list.\<close>

definition tokensBetween :: "SourceCode \<Rightarrow> span \<Rightarrow> span \<Rightarrow> token list" where
  "tokensBetween sc l r =
     filter (\<lambda>t. range1 l \<le> range0 (tok_span t) \<and> range1 (tok_span t) \<le> range0 r)
       (tokensAndComments sc)"

section \<open>The statement classifier\<close>

text \<open>
  \<open>createTokenTester\<close>: the first token is fetched first; \<open>&&\<close> then reads \<open>token.type\<close>
  only when \<open>node.type === 'ExpressionStatement'\<close>, and that read throws on \<open>null\<close>.
\<close>

definition createTokenTester :: "string \<Rightarrow> node \<Rightarrow> SourceCode \<Rightarrow> error + bool" where
  "createTokenTester tokenName n sc =
     (let token = getFirstToken sc n in
      if ntype n = ''ExpressionStatement'' then
        (case token of
           None \<Rightarrow> Inl TypeError
         | Some t \<Rightarrow> Inr (tok_type t = ''Identifier'' \<and> tok_value t = tokenName))
      else Inr False)"

fun statementTesters :: "StatementType \<Rightarrow> node \<Rightarrow> SourceCode \<Rightarrow> error + bool" where
  "statementTesters StatementType.Any = (\<lambda>n sc. Inr True)"
| "statementTesters AfterAllToken = createTokenTester ''afterAll''"
| "statementTesters AfterEachToken = createTokenTester ''afterEach''"
| "statementTesters BeforeAllToken = createTokenTester ''beforeAll''"
| "statementTesters BeforeEachToken = createTokenTester ''beforeEach''"
| "statementTesters DescribeToken = createTokenTester ''describe''"
| "statementTesters ExpectToken = createTokenTester ''expect''"
| "statementTesters FdescribeToken = createTokenTester ''fdescribe''"
| "statementTesters FitToken = createTokenTester ''fit''"
| "statementTesters ItToken = createTokenTester ''it''"
| "statementTesters TestToken = createTokenTester ''test''"
| "statementTesters XdescribeToken = createTokenTester ''xdescribe''"
| "statementTesters XitToken = createTokenTester ''xit''"
| "statementTesters XtestToken = createTokenTester ''xtest''"

text \<open>The name a named category looks for (the argument of its \<open>createTokenTester\<close>).\<close>

fun tokenNameOf :: "StatementType \<Rightarrow> string option" where
  "tokenNameOf StatementType.Any = None"
| "tokenNameOf AfterAllToken = Some ''afterAll''"
| "tokenNameOf AfterEachToken = Some ''afterEach''"
| "tokenNameOf BeforeAllToken = Some ''beforeAll''"
| "tokenNameOf BeforeEachToken = Some ''beforeEach''"
| "tokenNameOf DescribeToken = Some ''describe''"
| "tokenNameOf ExpectToken = Some ''expect''"
| "tokenNameOf FdescribeToken = Some ''fdescribe''"
| "tokenNameOf FitToken = Some ''fit''"
| "tokenNameOf ItToken = Some ''it''"
| "tokenNameOf TestToken = Some ''test''"
| "tokenNameOf XdescribeToken = Some ''xdescribe''"
| "tokenNameOf XitToken = Some ''xit''"
| "tokenNameOf XtestToken = Some ''xtest''"

text \<open>
  The loop \<open>while (innerStatementNode.type === 'LabeledStatement') innerStatementNode =
  innerStatementNode.body\<close>. A labeled statement without a body makes the next read of
  \<open>.type\<close> throw.
\<close>

fun digLabeled :: "node \<Rightarrow> error + node" where
  "digLabeled (Node t s p b) =
     (if t = ''LabeledStatement'' then
        (case b of None \<Rightarrow> Inl TypeError | Some inner \<Rightarrow> digLabeled inner)
      else Inr (Node t s p b))"

text \<open>\<open>Array.prototype.some\<close> with a callback that may throw: it stops at the first
  \<open>true\<close> and at the first exception.\<close>

fun some_err :: "('a \<Rightarrow> error + bool) \<Rightarrow> 'a list \<Rightarrow> error + bool" where
  "some_err f [] = Inr False"
| "some_err f (x # xs) =
     (case f x of
        Inl e \<Rightarrow> Inl e
      | Inr True \<Rightarrow> Inr True
      | Inr False \<Rightarrow> some_err f xs)"

text \<open>
  \<open>nodeMatchesType\<close>. The recursive call of the array branch is always on a single
  \<open>StatementType\<close> (the type has no nested arrays), so it is the non-array path of the
  same function: dig through the labels again, then run the tester.
\<close>

definition nodeMatchesSingle :: "node \<Rightarrow> StatementType \<Rightarrow> SourceCode \<Rightarrow> error + bool" where
  "nodeMatchesSingle n t sc =
     (case digLabeled n of
        Inl e \<Rightarrow> Inl e
      | Inr innerStatementNode \<Rightarrow> statementTesters t innerStatementNode sc)"

definition nodeMatchesType :: "node \<Rightarrow> StatementTypes \<Rightarrow> PaddingContext \<Rightarrow> error + bool" where
  "nodeMatchesType n statementType paddingContext =
     (case digLabeled n of
        Inl e \<Rightarrow> Inl e
      | Inr innerStatementNode \<Rightarrow>
          (case statementType of
             Multiple ts \<Rightarrow>
               some_err (\<lambda>t. nodeMatchesSingle innerStatementNode t (sourceCode paddingContext)) ts
           | Single t \<Rightarrow> statementTesters t innerStatementNode (sourceCode paddingContext)))"

section \<open>The helpers of \<open>ast-utils\<close>\<close>

text \<open>Modelled from the spec: \<open>astUtils.areTokensOnSameLine\<close>, missing from the sources;
  "given two tokens, report whether they lie on the same source line": the left one ends
  on the line the right one starts on. It is called on tokens and on nodes alike, so it
  takes their positions.\<close>

definition areTokensOnSameLine :: "span \<Rightarrow> span \<Rightarrow> bool" where
  "areTokensOnSameLine l r = (end_line l = start_line r)"

text \<open>Modelled from the spec: \<open>astUtils.getActualLastToken\<close>, missing from the sources;
  "given a node, return ... its last non-trivial token": the last token proper within
  the node's range, \<open>null\<close> when there is none.\<close>

definition getActualLastToken :: "SourceCode \<Rightarrow> node \<Rightarrow> token option" where
  "getActualLastToken sc n =
     (case rev (filter (\<lambda>t. \<not> isComment t \<and> inside (nspan n) t) (tokensAndComments sc)) of
        [] \<Rightarrow> None
      | t # _ \<Rightarrow> Some t)"

text \<open>Modelled from the spec: \<open>astUtils.getPaddingLineSequences\<close>, missing from the
  sources; "given two nodes, return the list of maximal blank-line run descriptors found
  textually between them", "strictly between the end of prevNode and the start of
  nextNode": going from the end of \<open>prevNode\<close> over every token and comment between the
  two nodes to the start of \<open>nextNode\<close>, each step that leaves at least one whole line
  empty is one descriptor (the two positions around the blank lines).\<close>

definition getPaddingLineSequences :: "node \<Rightarrow> node \<Rightarrow> SourceCode \<Rightarrow> (span \<times> span) list" where
  "getPaddingLineSequences prevNode nextNode sc =
     (let stops = nspan prevNode
            # map tok_span (tokensBetween sc (nspan prevNode) (nspan nextNode))
            @ [nspan nextNode]
      in filter (\<lambda>(a, b). end_line a + 2 \<le> start_line b) (zip stops (tl stops)))"

text \<open>Modelled from the spec: \<open>astUtils.isValidParent\<close>, missing from the sources;
  "reject statements whose parent type is not one of the recognized scope-introducing
  kinds": the program root, a block, a switch statement and a switch case, the last so
  that a statement of a case body is checked, the one before so that a case is.\<close>

definition isValidParent :: "string \<Rightarrow> bool" where
  "isValidParent parentType =
     (parentType = ''Program'' \<or> parentType = ''BlockStatement'' \<or>
      parentType = ''SwitchStatement'' \<or> parentType = ''SwitchCase'')"

section \<open>The padding testers\<close>

text \<open>
  The \<open>filter\<close> callback handed to \<open>getFirstTokenBetween\<close>, run by the cursor over the
  tokens and comments between \<open>prevToken\<close> and \<open>nextNode\<close>: a token on the line of
  \<open>prevToken\<close> becomes the new \<open>prevToken\<close> and is rejected; the first other token is
  returned. The result is the final \<open>prevToken\<close> and the token found (\<open>null\<close> if none).
\<close>

fun getFirstTokenBetween_filter :: "token \<Rightarrow> token list \<Rightarrow> token \<times> token option" where
  "getFirstTokenBetween_filter prevToken [] = (prevToken, None)"
| "getFirstTokenBetween_filter prevToken (t # ts) =
     (if areTokensOnSameLine (tok_span prevToken) (tok_span t)
      then getFirstTokenBetween_filter t ts
      else (prevToken, Some t))"

definition insertTextAfter :: "token \<Rightarrow> string \<Rightarrow> Fix" where
  "insertTextAfter t text =
     \<lparr>fix_range = (range1 (tok_span t), range1 (tok_span t)), fix_text = text\<rparr>"

text \<open>The \<open>fix(fixer)\<close> method of the report. ESLint calls it as part of \<open>report\<close>; a \<open>null\<close>
  last token makes \<open>getFirstTokenBetween\<close> throw.\<close>

definition report_fix_fn :: "node \<Rightarrow> node \<Rightarrow> SourceCode \<Rightarrow> error + Fix" where
  "report_fix_fn prevNode nextNode sc =
     (case getActualLastToken sc prevNode of
        None \<Rightarrow> Inl TypeError
      | Some lastToken \<Rightarrow>
          (case getFirstTokenBetween_filter lastToken
                  (tokensBetween sc (tok_span lastToken) (nspan nextNode)) of
             (prevToken, found) \<Rightarrow>
               (let nextToken = (case found of None \<Rightarrow> nspan nextNode | Some t \<Rightarrow> tok_span t);
                    insertText = (if areTokensOnSameLine (tok_span prevToken) nextToken
                                  then [CHR 0x0A, CHR 0x0A] else [CHR 0x0A])
                in Inr (insertTextAfter prevToken insertText))))"

definition paddingAlwaysTester ::
  "node \<Rightarrow> node \<Rightarrow> PaddingContext \<Rightarrow> state \<Rightarrow> error + state" where
  "paddingAlwaysTester prevNode nextNode paddingContext st =
     (let paddingLines = getPaddingLineSequences prevNode nextNode (sourceCode paddingContext)
      in if length paddingLines > 0 then Inr st
         else (case report_fix_fn prevNode nextNode (sourceCode paddingContext) of
                 Inl e \<Rightarrow> Inl e
               | Inr f \<Rightarrow>
                   Inr (st\<lparr>reports := reports st @
                          [\<lparr>report_node = nextNode,
                            report_message = ''Expected blank line before this statement.'',
                            report_fix = f\<rparr>]\<rparr>)))"

fun paddingTesters ::
  "PaddingType \<Rightarrow> node \<Rightarrow> node \<Rightarrow> PaddingContext \<Rightarrow> state \<Rightarrow> error + state" where
  "paddingTesters PaddingType.Any = (\<lambda>prevNode nextNode paddingContext st. Inr st)"
| "paddingTesters Always = paddingAlwaysTester"

section \<open>The scope tracker\<close>

text \<open>\<open>createScopeInfo\<close>: the getter and the setter of \<open>prevNode\<close> and \<open>exit\<close> read a
  property of \<open>scope\<close>, which throws while \<open>scope\<close> is \<open>null\<close>.\<close>

definition get_prevNode :: "state \<Rightarrow> error + node option" where
  "get_prevNode st = (case scope st of None \<Rightarrow> Inl TypeError | Some sc \<Rightarrow> Inr (scope_prevNode sc))"

definition set_prevNode :: "node \<Rightarrow> state \<Rightarrow> error + state" where
  "set_prevNode n st =
     (case scope st of
        None \<Rightarrow> Inl TypeError
      | Some sc \<Rightarrow> Inr (st\<lparr>scope := Some (Scope (scope_upper sc) (Some n))\<rparr>))"

definition enter :: "state \<Rightarrow> state" where
  "enter st = st\<lparr>scope := Some (Scope (scope st) None)\<rparr>"

definition exit :: "state \<Rightarrow> error + state" where
  "exit st =
     (case scope st of
        None \<Rightarrow> Inl TypeError
      | Some sc \<Rightarrow> Inr (st\<lparr>scope := scope_upper sc\<rparr>))"

section \<open>Rule table lookup and the traversal driver\<close>

text \<open>
  \<open>testPadding\<close>: the loop \<open>for (let i = configs.length - 1; i >= 0; --i)\<close>; the argument
  \<open>Suc i\<close> stands for the loop variable at \<open>i\<close>, and \<open>0\<close> for the loop having run out.
  \<open>&&\<close> does not test \<open>nextNode\<close> when \<open>prevNode\<close> does not match.
\<close>

text \<open>The condition of the \<open>if\<close> in the loop body, for the rule \<open>configs[i]\<close>.\<close>

definition ruleMatches :: "Config \<Rightarrow> node \<Rightarrow> node \<Rightarrow> PaddingContext \<Rightarrow> error + bool" where
  "ruleMatches c prevNode nextNode paddingContext =
     (case nodeMatchesType prevNode (prevStatementType c) paddingContext of
        Inl e \<Rightarrow> Inl e
      | Inr False \<Rightarrow> Inr False
      | Inr True \<Rightarrow> nodeMatchesType nextNode (nextStatementType c) paddingContext)"

fun testPadding_loop ::
  "nat \<Rightarrow> node \<Rightarrow> node \<Rightarrow> PaddingContext \<Rightarrow> state \<Rightarrow> error + state" where
  "testPadding_loop 0 prevNode nextNode paddingContext st =
     paddingTesters PaddingType.Any prevNode nextNode paddingContext st"
| "testPadding_loop (Suc i) prevNode nextNode paddingContext st =
     (case ruleMatches (configs paddingContext ! i) prevNode nextNode paddingContext of
        Inl e \<Rightarrow> Inl e
      | Inr True \<Rightarrow>
          paddingTesters (paddingType (configs paddingContext ! i))
            prevNode nextNode paddingContext st
      | Inr False \<Rightarrow> testPadding_loop i prevNode nextNode paddingContext st)"

definition testPadding :: "node \<Rightarrow> node \<Rightarrow> PaddingContext \<Rightarrow> state \<Rightarrow> error + state" where
  "testPadding prevNode nextNode paddingContext st =
     testPadding_loop (length (configs paddingContext)) prevNode nextNode paddingContext st"

text \<open>\<open>verifyNode\<close>; \<open>node.parent.type\<close> throws on a node without parent.\<close>

definition verifyNode :: "node \<Rightarrow> PaddingContext \<Rightarrow> state \<Rightarrow> error + state" where
  "verifyNode n paddingContext st =
     (case nparent n of
        None \<Rightarrow> Inl TypeError
      | Some parentType \<Rightarrow>
          if \<not> isValidParent parentType then Inr st
          else
            (case get_prevNode st of
               Inl e \<Rightarrow> Inl e
             | Inr None \<Rightarrow> set_prevNode n st
             | Inr (Some prev) \<Rightarrow>
                 (case testPadding prev n paddingContext st of
                    Inl e \<Rightarrow> Inl e
                  | Inr st' \<Rightarrow> set_prevNode n st')))"

text \<open>
  The listeners \<open>createRule\<close> registers, one constructor per selector; the host's
  tree walker calls them in document order.
\<close>

datatype event =
  Program | Program_exit
  | BlockStatement | BlockStatement_exit
  | SwitchStatement | SwitchStatement_exit
  | statement node
  | SwitchCase node | SwitchCase_exit

fun listener :: "PaddingContext \<Rightarrow> event \<Rightarrow> state \<Rightarrow> error + state" where
  "listener paddingContext Program st = Inr (enter st)"
| "listener paddingContext Program_exit st = Inr (enter st)"
| "listener paddingContext BlockStatement st = Inr (enter st)"
| "listener paddingContext BlockStatement_exit st = exit st"
| "listener paddingContext SwitchStatement st = Inr (enter st)"
| "listener paddingContext SwitchStatement_exit st = exit st"
| "listener paddingContext (statement n) st = verifyNode n paddingContext st"
| "listener paddingContext (SwitchCase n) st =
     (case verifyNode n paddingContext st of
        Inl e \<Rightarrow> Inl e
      | Inr st' \<Rightarrow> Inr (enter st'))"
| "listener paddingContext SwitchCase_exit st = exit st"

text \<open>A traversal: the host fires a sequence of events; an exception ends it.\<close>

fun traverse :: "PaddingContext \<Rightarrow> event list \<Rightarrow> state \<Rightarrow> error + state" where
  "traverse paddingContext [] st = Inr st"
| "traverse paddingContext (e # es) st =
     (case listener paddingContext e st of
        Inl x \<Rightarrow> Inl x
      | Inr st' \<Rightarrow> traverse paddingContext es st')"

text \<open>The state \<open>create\<close> starts from: \<open>scope\<close> is \<open>null\<close>, nothing reported.\<close>

definition initial :: state where
  "initial = \<lparr>scope = None, reports = []\<rparr>"

section \<open>Applying a fix\<close>

text \<open>Modelled from the spec: the host's application of an edit ("insert this text immediately
  after the anchor token's end position") followed by its parsing the result again. The
  text goes in at \<open>fix_range\<close>'s offset; what starts at or after that offset moves by the
  length of the text and down by the line breaks in it, what ends at or before it stays,
  and tokens and nodes are otherwise the ones of the first parse.\<close>

definition applyFixSpan :: "Fix \<Rightarrow> span \<Rightarrow> span" where
  "applyFixSpan f s =
     (let pos = fst (fix_range f);
          len = length (fix_text f);
          nl = count_list (fix_text f) (CHR 0x0A)
      in \<lparr>range0 = (if pos \<le> range0 s then range0 s + len else range0 s),
          range1 = (if pos < range1 s then range1 s + len else range1 s),
          start_line = (if pos \<le> range0 s then start_line s + nl else start_line s),
          end_line = (if pos < range1 s then end_line s + nl else end_line s)\<rparr>)"

definition applyFixToken :: "Fix \<Rightarrow> token \<Rightarrow> token" where
  "applyFixToken f t = t\<lparr>tok_span := applyFixSpan f (tok_span t)\<rparr>"

fun applyFixNode :: "Fix \<Rightarrow> node \<Rightarrow> node" where
  "applyFixNode f (Node t s p b) =
     Node t (applyFixSpan f s) p (case b of None \<Rightarrow> None | Some inner \<Rightarrow> Some (applyFixNode f inner))"

definition applyFixSource :: "Fix \<Rightarrow> SourceCode \<Rightarrow> SourceCode" where
  "applyFixSource f sc = \<lparr>tokensAndComments = map (applyFixToken f) (tokensAndComments sc)\<rparr>"

definition applyFix :: "Fix \<Rightarrow> PaddingContext \<Rightarrow> PaddingContext" where
  "applyFix f ctx = ctx\<lparr>sourceCode := applyFixSource f (sourceCode ctx)\<rparr>"

section \<open>Notions the statements use\<close>

text \<open>ESTree gives every \<open>LabeledStatement\<close> a body; on such nodes the label loop ends
  without an exception.\<close>

fun wellFormed :: "node \<Rightarrow> bool" where
  "wellFormed (Node t s p b) =
     (if t = ''LabeledStatement'' then
        (case b of None \<Rightarrow> False | Some inner \<Rightarrow> wellFormed inner)
      else True)"

text \<open>A run of tokens each of which is on the line of the one before it, starting from
  \<open>prevToken\<close>: the trailing tokens and comments the fix skips.\<close>

fun sameLineChain :: "token \<Rightarrow> token list \<Rightarrow> bool" where
  "sameLineChain prevToken [] = True"
| "sameLineChain prevToken (t # ts) =
     (areTokensOnSameLine (tok_span prevToken) (tok_span t) \<and> sameLineChain t ts)"

text \<open>The layout a tokenizer produces: tokens and comments in source order without overlap,
  and a token that starts after another one ends does not start on an earlier line.\<close>

definition tokensLaidOut :: "SourceCode \<Rightarrow> bool" where
  "tokensLaidOut sc =
     (sorted_wrt (\<lambda>s t. range1 (tok_span s) \<le> range0 (tok_span t)) (tokensAndComments sc) \<and>
      list_all (\<lambda>s. list_all (\<lambda>t. range1 (tok_span s) \<le> range0 (tok_span t) \<longrightarrow>
                                end_line (tok_span s) \<le> start_line (tok_span t))
                   (tokensAndComments sc))
        (tokensAndComments sc))"

text \<open>Which listeners of \<open>createRule\<close> push a scope and which pop one (all others leave the
  stack as it is), and the events fired inside a scope: \<open>staysInside d evs\<close> follows the
  nesting depth \<open>d\<close> below that scope through \<open>evs\<close> and is \<open>None\<close> when \<open>evs\<close>
  leaves the scope.\<close>

fun pushes :: "event \<Rightarrow> bool" where
  "pushes Program = True"
| "pushes Program_exit = True"
| "pushes BlockStatement = True"
| "pushes SwitchStatement = True"
| "pushes (SwitchCase n) = True"
| "pushes e = False"

fun pops :: "event \<Rightarrow> bool" where
  "pops BlockStatement_exit = True"
| "pops SwitchStatement_exit = True"
| "pops SwitchCase_exit = True"
| "pops e = False"

fun staysInside :: "nat \<Rightarrow> event list \<Rightarrow> nat option" where
  "staysInside d [] = Some d"
| "staysInside d (e # es) =
     (if pushes e then staysInside (Suc d) es
      else if pops e then (case d of 0 \<Rightarrow> None | Suc d' \<Rightarrow> staysInside d' es)
      else staysInside d es)"

text \<open>The scope \<open>k\<close> levels up the \<open>upper\<close> links.\<close>

fun nth_upper :: "nat \<Rightarrow> Scope option \<Rightarrow> Scope option option" where
  "nth_upper 0 s = Some s"
| "nth_upper (Suc k) None = None"
| "nth_upper (Suc k) (Some sc) = nth_upper k (scope_upper sc)"

section \<open>Example sources\<close>

text \<open>A one-line token, and an expression statement directly under \<open>Program\<close>.\<close>

definition tok :: "string \<Rightarrow> string \<Rightarrow> nat \<Rightarrow> nat \<Rightarrow> nat \<Rightarrow> token" where
  "tok ty v a b l =
     \<lparr>tok_type = ty, tok_value = v,
      tok_span = \<lparr>range0 = a, range1 = b, start_line = l, end_line = l\<rparr>\<rparr>"

definition stmt :: "nat \<Rightarrow> nat \<Rightarrow> nat \<Rightarrow> nat \<Rightarrow> node" where
  "stmt a b l1 l2 =
     Node ''ExpressionStatement''
       \<lparr>range0 = a, range1 = b, start_line = l1, end_line = l2\<rparr> (Some ''Program'') None"

text \<open>The source \<^verbatim>\<open>foo(); // note\<close>, newline, \<^verbatim>\<open>describe();\<close>: its statements are
  \<open>stmt 0 6 1 1\<close> and \<open>stmt 15 26 2 2\<close>. \<open>ctxA\<close> checks it with the table of
  \<open>padding-before-describe-blocks\<close>, \<open>ctxOverride\<close> with a table whose second rule
  overrides the first, \<open>ctxExpect\<close> with a table no rule of which matches.\<close>

definition srcA :: SourceCode where
  "srcA = \<lparr>tokensAndComments =
     [tok ''Identifier'' ''foo'' 0 3 1, tok ''Punctuator'' ''('' 3 4 1,
      tok ''Punctuator'' '')'' 4 5 1, tok ''Punctuator'' '';'' 5 6 1,
      tok ''Line'' '' note'' 7 14 1,
      tok ''Identifier'' ''describe'' 15 23 2, tok ''Punctuator'' ''('' 23 24 2,
      tok ''Punctuator'' '')'' 24 25 2, tok ''Punctuator'' '';'' 25 26 2]\<rparr>"

definition ctxA :: PaddingContext where
  "ctxA = \<lparr>sourceCode = srcA, configs =
     [\<lparr>paddingType = Always, prevStatementType = Single StatementType.Any,
       nextStatementType = Multiple [DescribeToken, FdescribeToken, XdescribeToken]\<rparr>]\<rparr>"

definition ctxOverride :: PaddingContext where
  "ctxOverride = \<lparr>sourceCode = srcA, configs =
     [\<lparr>paddingType = Always, prevStatementType = Single StatementType.Any,
       nextStatementType = Single DescribeToken\<rparr>,
      \<lparr>paddingType = PaddingType.Any, prevStatementType = Single StatementType.Any,
       nextStatementType = Single DescribeToken\<rparr>]\<rparr>"

definition ctxExpect :: PaddingContext where
  "ctxExpect = \<lparr>sourceCode = srcA, configs =
     [\<lparr>paddingType = Always, prevStatementType = Single StatementType.Any,
       nextStatementType = Single ExpectToken\<rparr>]\<rparr>"

text \<open>The fix reported for \<open>srcA\<close> under \<open>ctxA\<close>, and the report that carries it.\<close>

definition fixA :: Fix where
  "fixA = \<lparr>fix_range = (14, 14), fix_text = [CHR 0x0A]\<rparr>"

definition reportA :: Report where
  "reportA = \<lparr>report_node = stmt 15 26 2 2,
     report_message = ''Expected blank line before this statement.'',
     report_fix = fixA\<rparr>"

text \<open>\<open>srcA\<close> under a table whose only rule asks for a \<open>describe\<close> before the pair.\<close>

definition ctxAfterDescribe :: PaddingContext where
  "ctxAfterDescribe = \<lparr>sourceCode = srcA, configs =
     [\<lparr>paddingType = Always, prevStatementType = Single DescribeToken,
       nextStatementType = Single StatementType.Any\<rparr>]\<rparr>"

text \<open>\<^verbatim>\<open>describe();\<close>, newline, \<^verbatim>\<open>foo();\<close>: statements \<open>stmt 0 11 1 1\<close> and
  \<open>stmt 12 18 2 2\<close>. In the table of \<open>ctxRev\<close> the last rule asks for an \<open>expect\<close> before the
  pair, the second for a \<open>describe\<close>, the first for nothing; \<open>reportRev\<close> is what the second
  rule has reported here.\<close>

definition srcRev :: SourceCode where
  "srcRev = \<lparr>tokensAndComments =
     [tok ''Identifier'' ''describe'' 0 8 1, tok ''Punctuator'' ''('' 8 9 1,
      tok ''Punctuator'' '')'' 9 10 1, tok ''Punctuator'' '';'' 10 11 1,
      tok ''Identifier'' ''foo'' 12 15 2, tok ''Punctuator'' ''('' 15 16 2,
      tok ''Punctuator'' '')'' 16 17 2, tok ''Punctuator'' '';'' 17 18 2]\<rparr>"

definition ctxRev :: PaddingContext where
  "ctxRev = \<lparr>sourceCode = srcRev, configs =
     [\<lparr>paddingType = PaddingType.Any, prevStatementType = Single StatementType.Any,
       nextStatementType = Single StatementType.Any\<rparr>,
      \<lparr>paddingType = Always,
       prevStatementType = Multiple [DescribeToken, FdescribeToken, XdescribeToken],
       nextStatementType = Single StatementType.Any\<rparr>,
      \<lparr>paddingType = PaddingType.Any, prevStatementType = Single ExpectToken,
       nextStatementType = Single StatementType.Any\<rparr>]\<rparr>"

definition reportRev :: Report where
  "reportRev = \<lparr>report_node = stmt 12 18 2 2,
     report_message = ''Expected blank line before this statement.'',
     report_fix = \<lparr>fix_range = (11, 11), fix_text = [CHR 0x0A]\<rparr>\<rparr>"


text \<open>\<^verbatim>\<open>foo();\<close>, an empty line, \<^verbatim>\<open>describe();\<close>: statements \<open>stmt 0 6 1 1\<close> and
  \<open>stmt 8 19 3 3\<close>.\<close>

definition srcPadded :: SourceCode where
  "srcPadded = \<lparr>tokensAndComments =
     [tok ''Identifier'' ''foo'' 0 3 1, tok ''Punctuator'' ''('' 3 4 1,
      tok ''Punctuator'' '')'' 4 5 1, tok ''Punctuator'' '';'' 5 6 1,
      tok ''Identifier'' ''describe'' 8 16 3, tok ''Punctuator'' ''('' 16 17 3,
      tok ''Punctuator'' '')'' 17 18 3, tok ''Punctuator'' '';'' 18 19 3]\<rparr>"

definition ctxPadded :: PaddingContext where
  "ctxPadded = \<lparr>sourceCode = srcPadded, configs = configs ctxA\<rparr>"

text \<open>\<^verbatim>\<open>foo();describe();\<close> on one line: statements \<open>stmt 0 6 1 1\<close> and \<open>stmt 6 17 1 1\<close>.\<close>

definition srcOneLine :: SourceCode where
  "srcOneLine = \<lparr>tokensAndComments =
     [tok ''Identifier'' ''foo'' 0 3 1, tok ''Punctuator'' ''('' 3 4 1,
      tok ''Punctuator'' '')'' 4 5 1, tok ''Punctuator'' '';'' 5 6 1,
      tok ''Identifier'' ''describe'' 6 14 1, tok ''Punctuator'' ''('' 14 15 1,
      tok ''Punctuator'' '')'' 15 16 1, tok ''Punctuator'' '';'' 16 17 1]\<rparr>"

text \<open>\<^verbatim>\<open>if (x) describe();\<close>: the \<open>if\<close> statement, its body (whose parent is the
  \<open>IfStatement\<close>), and the state once the \<open>if\<close> statement has been visited.\<close>

definition srcIf :: SourceCode where
  "srcIf = \<lparr>tokensAndComments =
     [tok ''Keyword'' ''if'' 0 2 1, tok ''Punctuator'' ''('' 3 4 1,
      tok ''Identifier'' ''x'' 4 5 1, tok ''Punctuator'' '')'' 5 6 1,
      tok ''Identifier'' ''describe'' 7 15 1, tok ''Punctuator'' ''('' 15 16 1,
      tok ''Punctuator'' '')'' 16 17 1, tok ''Punctuator'' '';'' 17 18 1]\<rparr>"

definition ifStmt :: node where
  "ifStmt = Node ''IfStatement'' \<lparr>range0 = 0, range1 = 18, start_line = 1, end_line = 1\<rparr>
     (Some ''Program'') None"

definition ifBody :: node where
  "ifBody = Node ''ExpressionStatement''
     \<lparr>range0 = 7, range1 = 18, start_line = 1, end_line = 1\<rparr> (Some ''IfStatement'') None"

definition ctxIf :: PaddingContext where
  "ctxIf = \<lparr>sourceCode = srcIf, configs = configs ctxA\<rparr>"

definition afterIf :: state where
  "afterIf = \<lparr>scope = Some (Scope None (Some ifStmt)), reports = []\<rparr>"

text \<open>An empty token list and a statement that has no token in it.\<close>

definition srcEmpty :: SourceCode where
  "srcEmpty = \<lparr>tokensAndComments = []\<rparr>"

definition emptyStmt :: node where
  "emptyStmt = Node ''EmptyStatement''
     \<lparr>range0 = 0, range1 = 0, start_line = 1, end_line = 1\<rparr> (Some ''Program'') None"

text \<open>\<^verbatim>\<open>foo();\<close>, then a block on three lines holding \<^verbatim>\<open>describe();\<close>, then
  \<^verbatim>\<open>bar();\<close>; the state once the block statement has been visited, and the state
  inside the block once its statement has been visited.\<close>

definition srcBlock :: SourceCode where
  "srcBlock = \<lparr>tokensAndComments =
     [tok ''Identifier'' ''foo'' 0 3 1, tok ''Punctuator'' ''('' 3 4 1,
      tok ''Punctuator'' '')'' 4 5 1, tok ''Punctuator'' '';'' 5 6 1,
      tok ''Punctuator'' ''{'' 7 8 2,
      tok ''Identifier'' ''describe'' 9 17 3, tok ''Punctuator'' ''('' 17 18 3,
      tok ''Punctuator'' '')'' 18 19 3, tok ''Punctuator'' '';'' 19 20 3,
      tok ''Punctuator'' ''}'' 21 22 4,
      tok ''Identifier'' ''bar'' 23 26 5, tok ''Punctuator'' ''('' 26 27 5,
      tok ''Punctuator'' '')'' 27 28 5, tok ''Punctuator'' '';'' 28 29 5]\<rparr>"

definition blockStmt :: node where
  "blockStmt = Node ''BlockStatement''
     \<lparr>range0 = 7, range1 = 22, start_line = 2, end_line = 4\<rparr> (Some ''Program'') None"

definition describeInBlock :: node where
  "describeInBlock = Node ''ExpressionStatement''
     \<lparr>range0 = 9, range1 = 20, start_line = 3, end_line = 3\<rparr> (Some ''BlockStatement'') None"

definition ctxBlock :: PaddingContext where
  "ctxBlock = \<lparr>sourceCode = srcBlock, configs = configs ctxA\<rparr>"

definition afterBlock :: state where
  "afterBlock = \<lparr>scope = Some (Scope None (Some blockStmt)), reports = []\<rparr>"

definition insideBlock :: state where
  "insideBlock =
     \<lparr>scope = Some (Scope (Some (Scope None (Some blockStmt))) (Some describeInBlock)),
      reports = []\<rparr>"

section \<open>The classifier\<close>



lemma digLabeled_total: "wellFormed n \<Longrightarrow> \<exists>m. digLabeled n = Inr m"
  by (induction n rule: digLabeled.induct) (auto split: if_splits option.splits)

lemma statementTesters_named:
  "tokenNameOf t = Some name \<Longrightarrow> statementTesters t = createTokenTester name"
  by (cases t) auto




lemma nodeMatchesType_Single:
  "digLabeled n = Inr m \<Longrightarrow>
   nodeMatchesType n (Single t) ctx = statementTesters t m (sourceCode ctx)"
  by (simp add: nodeMatchesType_def)


lemma nodeMatchesType_Any_wellFormed:
  "wellFormed p \<Longrightarrow> nodeMatchesType p (Single StatementType.Any) ctx = Inr True"
  using digLabeled_total [of p] by (auto simp: nodeMatchesType_Single)

lemma getFirstToken_describe:
  "getFirstToken srcA (stmt 15 26 2 2) = Some (tok ''Identifier'' ''describe'' 15 23 2)"
  by (simp add: getFirstToken_def srcA_def tok_def stmt_def isComment_def inside_def)

lemma nodeMatchesType_describe_srcA:
  "sourceCode ctx = srcA \<Longrightarrow> nodeMatchesType (stmt 15 26 2 2) (Single DescribeToken) ctx = Inr True"
  by (simp add: nodeMatchesType_def stmt_def createTokenTester_def
      getFirstToken_describe [unfolded stmt_def] tok_def)



text \<open>
  Claim C10, as amended. The tester of a named category fetches the first token first,
  but reads it only on an expression statement. So the test is undefined (a \<open>TypeError\<close>)
  exactly on an expression statement without first token; a node of any other kind
  yields \<open>false\<close>, with or without a first token; and a node with a first token always
  yields a boolean.
\<close>

theorem statementTesters_undefined_iff:
  "tokenNameOf t = Some name \<Longrightarrow>
   (statementTesters t n sc = Inl TypeError) =
     (ntype n = ''ExpressionStatement'' \<and> getFirstToken sc n = None) \<and>
   (ntype n \<noteq> ''ExpressionStatement'' \<longrightarrow> statementTesters t n sc = Inr False) \<and>
   (\<forall>tk. getFirstToken sc n = Some tk \<longrightarrow>
      statementTesters t n sc =
        Inr (ntype n = ''ExpressionStatement'' \<and> tok_type tk = ''Identifier'' \<and> tok_value tk = name))"
  by (auto simp: statementTesters_named createTokenTester_def split: option.splits)

text \<open>An expression statement without token makes the test undefined; the
  \<^verbatim>\<open>describe();\<close> of \<open>srcA\<close> matches.\<close>

theorem statementTesters_undefined_iff_witness:
  "tokenNameOf DescribeToken = Some ''describe'' \<and>
   statementTesters DescribeToken (stmt 0 0 1 1) srcEmpty = Inl TypeError \<and>
   statementTesters DescribeToken (stmt 15 26 2 2) srcA = Inr True"
proof -
  have nm: "tokenNameOf DescribeToken = Some ''describe''" by simp
  have a: "getFirstToken srcEmpty (stmt 0 0 1 1) = None"
    by (simp add: getFirstToken_def srcEmpty_def)
  have ty: "\<And>a b c d. ntype (stmt a b c d) = ''ExpressionStatement''" by (simp add: stmt_def)
  show ?thesis
    using statementTesters_undefined_iff [OF nm, of "stmt 0 0 1 1" srcEmpty]
      statementTesters_undefined_iff [OF nm, of "stmt 15 26 2 2" srcA]
      a ty getFirstToken_describe
    by (simp add: tok_def)
qed

text \<open>Against claim C10 as stated ("a node with no first token does not yield false"): an
  empty statement over an empty token list has no first token, and the tester yields
  \<open>false\<close>.\<close>

theorem tester_no_first_token_counterexample:
  "getFirstToken srcEmpty emptyStmt = None \<and>
   statementTesters DescribeToken emptyStmt srcEmpty = Inr False"
  by (simp add: getFirstToken_def srcEmpty_def emptyStmt_def createTokenTester_def)

section \<open>Rule table lookup\<close>

lemma testPadding_loop_skip:
  "i \<le> k \<Longrightarrow>
   (\<And>j. i \<le> j \<Longrightarrow> j < k \<Longrightarrow> ruleMatches (configs ctx ! j) p n ctx = Inr False) \<Longrightarrow>
   testPadding_loop k p n ctx st = testPadding_loop i p n ctx st"
proof (induction k)
  case 0
  then show ?case by simp
next
  case (Suc k)
  show ?case
  proof (cases "i = Suc k")
    case True
    then show ?thesis by simp
  next
    case False
    with Suc.prems have le: "i \<le> k" by simp
    have "ruleMatches (configs ctx ! k) p n ctx = Inr False"
      using Suc.prems(2) [of k] le by simp
    then have "testPadding_loop (Suc k) p n ctx st = testPadding_loop k p n ctx st"
      by simp
    also have "\<dots> = testPadding_loop i p n ctx st"
      using Suc.IH [OF le] Suc.prems(2) by simp
    finally show ?thesis .
  qed
qed

lemma testPadding_resolved:
  assumes "i < length (configs ctx)"
    and "ruleMatches (configs ctx ! i) p n ctx = Inr True"
    and "\<And>j. i < j \<Longrightarrow> j < length (configs ctx) \<Longrightarrow>
           ruleMatches (configs ctx ! j) p n ctx = Inr False"
  shows "testPadding p n ctx st = paddingTesters (paddingType (configs ctx ! i)) p n ctx st"
proof -
  have "testPadding p n ctx st = testPadding_loop (Suc i) p n ctx st"
    unfolding testPadding_def using assms(1,3)
    by (intro testPadding_loop_skip) auto
  then show ?thesis using assms(2) by simp
qed

lemma testPadding_unmatched:
  assumes "\<And>j. j < length (configs ctx) \<Longrightarrow> ruleMatches (configs ctx ! j) p n ctx = Inr False"
  shows "testPadding p n ctx st = paddingTesters PaddingType.Any p n ctx st"
proof -
  have "testPadding p n ctx st = testPadding_loop 0 p n ctx st"
    unfolding testPadding_def using assms
    by (intro testPadding_loop_skip) auto
  then show ?thesis by simp
qed

text \<open>
  Claim C3. The table is scanned from its last rule to its first. When the previous
  node matches the previous category of rule \<open>i\<close> and the next node its next category,
  and every rule after \<open>i\<close> fails on the previous node or, passing there, on the next
  node, the tester of rule \<open>i\<close>'s policy is run; when every rule fails so, the \<open>Any\<close>
  tester is run. In particular, under the table \<open>[{Always, Any \<rightarrow> X}, {Any, Any \<rightarrow> X}]\<close>
  a pair whose next node is in category \<open>X\<close> gets the policy \<open>Any\<close>.
\<close>

theorem testPadding_last_match_wins:
  "(i < length (configs ctx) \<and>
    nodeMatchesType p (prevStatementType (configs ctx ! i)) ctx = Inr True \<and>
    nodeMatchesType n (nextStatementType (configs ctx ! i)) ctx = Inr True \<and>
    (\<forall>j. i < j \<and> j < length (configs ctx) \<longrightarrow>
         nodeMatchesType p (prevStatementType (configs ctx ! j)) ctx = Inr False \<or>
         nodeMatchesType p (prevStatementType (configs ctx ! j)) ctx = Inr True \<and>
         nodeMatchesType n (nextStatementType (configs ctx ! j)) ctx = Inr False)
    \<longrightarrow> testPadding p n ctx st = paddingTesters (paddingType (configs ctx ! i)) p n ctx st) \<and>
   ((\<forall>j. j < length (configs ctx) \<longrightarrow>
         nodeMatchesType p (prevStatementType (configs ctx ! j)) ctx = Inr False \<or>
         nodeMatchesType p (prevStatementType (configs ctx ! j)) ctx = Inr True \<and>
         nodeMatchesType n (nextStatementType (configs ctx ! j)) ctx = Inr False)
    \<longrightarrow> testPadding p n ctx st = paddingTesters PaddingType.Any p n ctx st) \<and>
   (configs ctx =
      [\<lparr>paddingType = Always, prevStatementType = Single StatementType.Any, nextStatementType = X\<rparr>,
       \<lparr>paddingType = PaddingType.Any, prevStatementType = Single StatementType.Any,
        nextStatementType = X\<rparr>] \<and>
    wellFormed p \<and> nodeMatchesType n X ctx = Inr True
    \<longrightarrow> testPadding p n ctx st = paddingTesters PaddingType.Any p n ctx st)"
proof (intro conjI impI)
  assume a: "i < length (configs ctx) \<and>
    nodeMatchesType p (prevStatementType (configs ctx ! i)) ctx = Inr True \<and>
    nodeMatchesType n (nextStatementType (configs ctx ! i)) ctx = Inr True \<and>
    (\<forall>j. i < j \<and> j < length (configs ctx) \<longrightarrow>
         nodeMatchesType p (prevStatementType (configs ctx ! j)) ctx = Inr False \<or>
         nodeMatchesType p (prevStatementType (configs ctx ! j)) ctx = Inr True \<and>
         nodeMatchesType n (nextStatementType (configs ctx ! j)) ctx = Inr False)"
  have m: "ruleMatches (configs ctx ! i) p n ctx = Inr True"
    using a by (simp add: ruleMatches_def)
  have later: "\<And>j. i < j \<Longrightarrow> j < length (configs ctx) \<Longrightarrow>
      ruleMatches (configs ctx ! j) p n ctx = Inr False"
    using a by (auto simp: ruleMatches_def)
  show "testPadding p n ctx st = paddingTesters (paddingType (configs ctx ! i)) p n ctx st"
    using a m later by (intro testPadding_resolved) simp_all
next
  assume a: "\<forall>j. j < length (configs ctx) \<longrightarrow>
         nodeMatchesType p (prevStatementType (configs ctx ! j)) ctx = Inr False \<or>
         nodeMatchesType p (prevStatementType (configs ctx ! j)) ctx = Inr True \<and>
         nodeMatchesType n (nextStatementType (configs ctx ! j)) ctx = Inr False"
  have "\<And>j. j < length (configs ctx) \<Longrightarrow> ruleMatches (configs ctx ! j) p n ctx = Inr False"
    using a by (auto simp: ruleMatches_def)
  then show "testPadding p n ctx st = paddingTesters PaddingType.Any p n ctx st"
    by (rule testPadding_unmatched)
next
  assume a: "configs ctx =
      [\<lparr>paddingType = Always, prevStatementType = Single StatementType.Any, nextStatementType = X\<rparr>,
       \<lparr>paddingType = PaddingType.Any, prevStatementType = Single StatementType.Any,
        nextStatementType = X\<rparr>] \<and>
    wellFormed p \<and> nodeMatchesType n X ctx = Inr True"
  then have m: "ruleMatches (configs ctx ! 1) p n ctx = Inr True"
    by (simp add: ruleMatches_def nodeMatchesType_Any_wellFormed)
  have "testPadding p n ctx st = paddingTesters (paddingType (configs ctx ! 1)) p n ctx st"
    using a m by (intro testPadding_resolved) auto
  then show "testPadding p n ctx st = paddingTesters PaddingType.Any p n ctx st"
    using a by simp
qed

text \<open>Under \<open>ctxRev\<close> the \<open>expect\<close> rule is passed over, the \<open>describe\<close> rule wins over the
  wildcard rule declared before it, and its \<open>Always\<close> reports. Under \<open>ctxAfterDescribe\<close>
  the previous node is no \<open>describe\<close>, so the rule does not apply though its next category
  matches. Under \<open>ctxOverride\<close> the later \<open>Any\<close> rule wins.\<close>

theorem testPadding_last_match_wins_witness:
  "testPadding (stmt 0 11 1 1) (stmt 12 18 2 2) ctxRev initial =
     Inr \<lparr>scope = None, reports = [reportRev]\<rparr> \<and>
   testPadding (stmt 0 6 1 1) (stmt 15 26 2 2) ctxAfterDescribe initial = Inr initial \<and>
   testPadding (stmt 0 6 1 1) (stmt 15 26 2 2) ctxOverride initial = Inr initial"
proof -
  let ?d = "stmt 0 11 1 1" and ?f = "stmt 12 18 2 2"
  have len: "length (configs ctxRev) = 3" by (simp add: ctxRev_def)
  have p1: "nodeMatchesType ?d (prevStatementType (configs ctxRev ! 1)) ctxRev = Inr True"
    by code_simp
  have n1: "nodeMatchesType ?f (nextStatementType (configs ctxRev ! 1)) ctxRev = Inr True"
    by code_simp
  have p2: "nodeMatchesType ?d (prevStatementType (configs ctxRev ! 2)) ctxRev = Inr False"
    by code_simp
  have later: "\<forall>j. 1 < j \<and> j < length (configs ctxRev) \<longrightarrow>
         nodeMatchesType ?d (prevStatementType (configs ctxRev ! j)) ctxRev = Inr False \<or>
         nodeMatchesType ?d (prevStatementType (configs ctxRev ! j)) ctxRev = Inr True \<and>
         nodeMatchesType ?f (nextStatementType (configs ctxRev ! j)) ctxRev = Inr False"
  proof (intro allI impI)
    fix j :: nat
    assume "1 < j \<and> j < length (configs ctxRev)"
    then have j: "j = 2" unfolding len by arith
    show "nodeMatchesType ?d (prevStatementType (configs ctxRev ! j)) ctxRev = Inr False \<or>
         nodeMatchesType ?d (prevStatementType (configs ctxRev ! j)) ctxRev = Inr True \<and>
         nodeMatchesType ?f (nextStatementType (configs ctxRev ! j)) ctxRev = Inr False"
      unfolding j using p2 by (rule disjI1)
  qed
  have lt: "1 < length (configs ctxRev)" unfolding len by simp
  have hyp: "1 < length (configs ctxRev) \<and>
    nodeMatchesType ?d (prevStatementType (configs ctxRev ! 1)) ctxRev = Inr True \<and>
    nodeMatchesType ?f (nextStatementType (configs ctxRev ! 1)) ctxRev = Inr True \<and>
    (\<forall>j. 1 < j \<and> j < length (configs ctxRev) \<longrightarrow>
         nodeMatchesType ?d (prevStatementType (configs ctxRev ! j)) ctxRev = Inr False \<or>
         nodeMatchesType ?d (prevStatementType (configs ctxRev ! j)) ctxRev = Inr True \<and>
         nodeMatchesType ?f (nextStatementType (configs ctxRev ! j)) ctxRev = Inr False)"
    using lt p1 n1 later by (intro conjI)
  have "testPadding ?d ?f ctxRev initial =
      paddingTesters (paddingType (configs ctxRev ! 1)) ?d ?f ctxRev initial"
    by (rule mp [OF conjunct1 [OF testPadding_last_match_wins] hyp])
  also have "\<dots> = Inr \<lparr>scope = None, reports = [reportRev]\<rparr>"
    by code_simp
  finally have a: "testPadding ?d ?f ctxRev initial = Inr \<lparr>scope = None, reports = [reportRev]\<rparr>" .
  \<comment> \<open>the only rule asks for a \<open>describe\<close> before; \<open>foo();\<close> is none\<close>
  have q0: "nodeMatchesType (stmt 0 6 1 1) (prevStatementType (configs ctxAfterDescribe ! 0))
      ctxAfterDescribe = Inr False"
    by code_simp
  have len': "length (configs ctxAfterDescribe) = 1" by (simp add: ctxAfterDescribe_def)
  have none: "\<forall>j. j < length (configs ctxAfterDescribe) \<longrightarrow>
         nodeMatchesType (stmt 0 6 1 1) (prevStatementType (configs ctxAfterDescribe ! j))
           ctxAfterDescribe = Inr False \<or>
         nodeMatchesType (stmt 0 6 1 1) (prevStatementType (configs ctxAfterDescribe ! j))
           ctxAfterDescribe = Inr True \<and>
         nodeMatchesType (stmt 15 26 2 2) (nextStatementType (configs ctxAfterDescribe ! j))
           ctxAfterDescribe = Inr False"
    using q0 by (simp add: len')
  have "testPadding (stmt 0 6 1 1) (stmt 15 26 2 2) ctxAfterDescribe initial =
      paddingTesters PaddingType.Any (stmt 0 6 1 1) (stmt 15 26 2 2) ctxAfterDescribe initial"
    by (rule mp [OF conjunct1 [OF conjunct2 [OF testPadding_last_match_wins]] none])
  then have b: "testPadding (stmt 0 6 1 1) (stmt 15 26 2 2) ctxAfterDescribe initial = Inr initial"
    by simp
  have cfg: "configs ctxOverride =
      [\<lparr>paddingType = Always, prevStatementType = Single StatementType.Any,
        nextStatementType = Single DescribeToken\<rparr>,
       \<lparr>paddingType = PaddingType.Any, prevStatementType = Single StatementType.Any,
        nextStatementType = Single DescribeToken\<rparr>]"
    by (simp add: ctxOverride_def)
  have wf: "wellFormed (stmt 0 6 1 1)" by (simp add: stmt_def)
  have nx: "nodeMatchesType (stmt 15 26 2 2) (Single DescribeToken) ctxOverride = Inr True"
    by (rule nodeMatchesType_describe_srcA) (simp add: ctxOverride_def)
  have "testPadding (stmt 0 6 1 1) (stmt 15 26 2 2) ctxOverride initial =
      paddingTesters PaddingType.Any (stmt 0 6 1 1) (stmt 15 26 2 2) ctxOverride initial"
    using cfg wf nx
    by (intro mp [OF conjunct2 [OF conjunct2 [OF testPadding_last_match_wins]]] conjI)
  then have c: "testPadding (stmt 0 6 1 1) (stmt 15 26 2 2) ctxOverride initial = Inr initial"
    by simp
  from a b c show ?thesis by (intro conjI)
qed

text \<open>
  Claim C9. When no rule matches, the \<open>Any\<close> tester is run; the \<open>Any\<close> tester leaves the
  state as it is; so whenever the policy found is \<open>Any\<close>, \<open>testPadding\<close> reports nothing
  and computes no fix, whatever lies between the two nodes.
\<close>

theorem testPadding_policy_Any:
  "((\<forall>j. j < length (configs ctx) \<longrightarrow> ruleMatches (configs ctx ! j) p n ctx = Inr False)
      \<longrightarrow> testPadding p n ctx st = paddingTesters PaddingType.Any p n ctx st) \<and>
   paddingTesters PaddingType.Any p n ctx st = Inr st \<and>
   (i < length (configs ctx) \<and> ruleMatches (configs ctx ! i) p n ctx = Inr True \<and>
    (\<forall>j. i < j \<and> j < length (configs ctx) \<longrightarrow>
         ruleMatches (configs ctx ! j) p n ctx = Inr False) \<and>
    paddingType (configs ctx ! i) = PaddingType.Any
      \<longrightarrow> testPadding p n ctx st = Inr st)"
proof (intro conjI impI)
  assume "\<forall>j. j < length (configs ctx) \<longrightarrow> ruleMatches (configs ctx ! j) p n ctx = Inr False"
  then show "testPadding p n ctx st = paddingTesters PaddingType.Any p n ctx st"
    by (intro testPadding_unmatched) auto
next
  show "paddingTesters PaddingType.Any p n ctx st = Inr st" by simp
next
  assume a: "i < length (configs ctx) \<and> ruleMatches (configs ctx ! i) p n ctx = Inr True \<and>
    (\<forall>j. i < j \<and> j < length (configs ctx) \<longrightarrow>
         ruleMatches (configs ctx ! j) p n ctx = Inr False) \<and>
    paddingType (configs ctx ! i) = PaddingType.Any"
  then have "testPadding p n ctx st = paddingTesters (paddingType (configs ctx ! i)) p n ctx st"
    by (intro testPadding_resolved) auto
  then show "testPadding p n ctx st = Inr st" using a by simp
qed

text \<open>The two statements of \<open>srcA\<close> have no blank line between them; nothing is reported
  when no rule matches (\<open>ctxExpect\<close>) or when the winning rule says \<open>Any\<close>
  (\<open>ctxOverride\<close>).\<close>

theorem testPadding_policy_Any_witness:
  "testPadding (stmt 0 6 1 1) (stmt 15 26 2 2) ctxExpect initial = Inr initial \<and>
   testPadding (stmt 0 6 1 1) (stmt 15 26 2 2) ctxOverride initial = Inr initial \<and>
   getPaddingLineSequences (stmt 0 6 1 1) (stmt 15 26 2 2) srcA = []"
proof -
  have nm: "ruleMatches (configs ctxExpect ! 0) (stmt 0 6 1 1) (stmt 15 26 2 2) ctxExpect = Inr False"
    by code_simp
  have all: "\<forall>j. j < length (configs ctxExpect) \<longrightarrow>
      ruleMatches (configs ctxExpect ! j) (stmt 0 6 1 1) (stmt 15 26 2 2) ctxExpect = Inr False"
    using nm by (simp add: ctxExpect_def)
  have a: "testPadding (stmt 0 6 1 1) (stmt 15 26 2 2) ctxExpect initial = Inr initial"
    using testPadding_policy_Any [of ctxExpect "stmt 0 6 1 1" "stmt 15 26 2 2" initial 0] all
    by simp
  have m: "ruleMatches (configs ctxOverride ! 1) (stmt 0 6 1 1) (stmt 15 26 2 2) ctxOverride = Inr True"
    by code_simp
  have len: "length (configs ctxOverride) = 2" and pt: "paddingType (configs ctxOverride ! 1) = PaddingType.Any"
    by (simp_all add: ctxOverride_def)
  have hyp: "1 < length (configs ctxOverride) \<and>
      ruleMatches (configs ctxOverride ! 1) (stmt 0 6 1 1) (stmt 15 26 2 2) ctxOverride = Inr True \<and>
      (\<forall>j. 1 < j \<and> j < length (configs ctxOverride) \<longrightarrow>
        ruleMatches (configs ctxOverride ! j) (stmt 0 6 1 1) (stmt 15 26 2 2) ctxOverride = Inr False) \<and>
      paddingType (configs ctxOverride ! 1) = PaddingType.Any"
    using m pt by (auto simp: len)
  have b: "testPadding (stmt 0 6 1 1) (stmt 15 26 2 2) ctxOverride initial = Inr initial"
    by (rule mp [OF conjunct2 [OF conjunct2 [OF testPadding_policy_Any]] hyp])
  have pl: "getPaddingLineSequences (stmt 0 6 1 1) (stmt 15 26 2 2) srcA = []"
    by code_simp
  from a b pl show ?thesis by simp
qed

section \<open>The \<open>Always\<close> tester and its fix\<close>

lemma paddingAlwaysTester_cases:
  "getActualLastToken (sourceCode ctx) p = Some lastToken \<Longrightarrow>
   \<exists>f. report_fix_fn p n (sourceCode ctx) = Inr f \<and>
       paddingAlwaysTester p n ctx st =
         Inr (if getPaddingLineSequences p n (sourceCode ctx) = [] then
                st\<lparr>reports := reports st @
                  [\<lparr>report_node = n,
                    report_message = ''Expected blank line before this statement.'',
                    report_fix = f\<rparr>]\<rparr>
              else st)"
  by (auto simp: paddingAlwaysTester_def report_fix_fn_def Let_def split: prod.splits)

lemma paddingAlwaysTester_result:
  "paddingAlwaysTester p n ctx st = Inr st' \<Longrightarrow>
   st' = st \<or>
   (\<exists>f. report_fix_fn p n (sourceCode ctx) = Inr f \<and>
        st' = st\<lparr>reports := reports st @
                 [\<lparr>report_node = n,
                   report_message = ''Expected blank line before this statement.'',
                   report_fix = f\<rparr>]\<rparr>)"
  by (auto simp: paddingAlwaysTester_def Let_def split: if_splits sum.splits)

lemma testPadding_loop_result:
  "testPadding_loop k p n ctx st = Inr st' \<Longrightarrow>
   st' = st \<or>
   (\<exists>f. report_fix_fn p n (sourceCode ctx) = Inr f \<and>
        st' = st\<lparr>reports := reports st @
                 [\<lparr>report_node = n,
                   report_message = ''Expected blank line before this statement.'',
                   report_fix = f\<rparr>]\<rparr>)"
proof (induction k)
  case 0
  then show ?case by simp
next
  case (Suc k)
  show ?case
  proof (cases "ruleMatches (configs ctx ! k) p n ctx")
    case (Inl e)
    with Suc.prems show ?thesis by simp
  next
    case (Inr m)
    show ?thesis
    proof (cases m)
      case True
      with Inr Suc.prems
      have t: "paddingTesters (paddingType (configs ctx ! k)) p n ctx st = Inr st'" by simp
      show ?thesis
      proof (cases "paddingType (configs ctx ! k)")
        case Any
        with t show ?thesis by simp
      next
        case Always
        with t show ?thesis by (simp add: paddingAlwaysTester_result)
      qed
    next
      case False
      with Inr Suc.prems Suc.IH show ?thesis by simp
    qed
  qed
qed

text \<open>
  Claim C1. For a pair whose policy is \<open>Always\<close> (rule \<open>i\<close> matches, no later rule does,
  and rule \<open>i\<close> says \<open>Always\<close>), where \<open>prevNode\<close> has a last token: if there is no
  blank-line sequence between the nodes, exactly one report is added, on \<open>nextNode\<close>, with
  the message \<open>Expected blank line before this statement.\<close> and the computed fix; if
  there is one, nothing is reported.
\<close>

theorem testPadding_Always_reports:
  assumes "i < length (configs ctx)"
    and "ruleMatches (configs ctx ! i) p n ctx = Inr True"
    and "\<forall>j. i < j \<and> j < length (configs ctx) \<longrightarrow>
           ruleMatches (configs ctx ! j) p n ctx = Inr False"
    and "paddingType (configs ctx ! i) = Always"
    and "getActualLastToken (sourceCode ctx) p = Some lastToken"
  shows "\<exists>f. report_fix_fn p n (sourceCode ctx) = Inr f \<and>
       testPadding p n ctx st =
         Inr (if getPaddingLineSequences p n (sourceCode ctx) = [] then
                st\<lparr>reports := reports st @
                  [\<lparr>report_node = n,
                    report_message = ''Expected blank line before this statement.'',
                    report_fix = f\<rparr>]\<rparr>
              else st)"
proof -
  have "testPadding p n ctx st = paddingTesters (paddingType (configs ctx ! i)) p n ctx st"
    using assms(1-3) by (intro testPadding_resolved) auto
  then have "testPadding p n ctx st = paddingAlwaysTester p n ctx st"
    using assms(4) by simp
  then show ?thesis
    using paddingAlwaysTester_cases [OF assms(5), of n st] by simp
qed

text \<open>\<open>srcA\<close> gets one report with its fix; \<open>srcPadded\<close> gets none.\<close>

theorem testPadding_Always_reports_witness:
  "testPadding (stmt 0 6 1 1) (stmt 15 26 2 2) ctxA initial =
     Inr \<lparr>scope = None, reports =
       [\<lparr>report_node = stmt 15 26 2 2,
         report_message = ''Expected blank line before this statement.'',
         report_fix = \<lparr>fix_range = (14, 14), fix_text = [CHR 0x0A]\<rparr>\<rparr>]\<rparr> \<and>
   testPadding (stmt 0 6 1 1) (stmt 8 19 3 3) ctxPadded initial = Inr initial"
proof -
  have len: "length (configs ctxA) = 1" "length (configs ctxPadded) = 1"
    by (simp_all add: ctxA_def ctxPadded_def)
  have pt: "paddingType (configs ctxA ! 0) = Always" "paddingType (configs ctxPadded ! 0) = Always"
    by (simp_all add: ctxA_def ctxPadded_def)
  have m1: "ruleMatches (configs ctxA ! 0) (stmt 0 6 1 1) (stmt 15 26 2 2) ctxA = Inr True"
    by code_simp
  have m2: "ruleMatches (configs ctxPadded ! 0) (stmt 0 6 1 1) (stmt 8 19 3 3) ctxPadded = Inr True"
    by code_simp
  have lt1: "getActualLastToken (sourceCode ctxA) (stmt 0 6 1 1) = Some (tok ''Punctuator'' '';'' 5 6 1)"
    by code_simp
  have lt2: "getActualLastToken (sourceCode ctxPadded) (stmt 0 6 1 1) = Some (tok ''Punctuator'' '';'' 5 6 1)"
    by code_simp
  have f1: "report_fix_fn (stmt 0 6 1 1) (stmt 15 26 2 2) (sourceCode ctxA) =
      Inr \<lparr>fix_range = (14, 14), fix_text = [CHR 0x0A]\<rparr>"
    by code_simp
  have p1: "getPaddingLineSequences (stmt 0 6 1 1) (stmt 15 26 2 2) (sourceCode ctxA) = []"
    by code_simp
  have p2: "getPaddingLineSequences (stmt 0 6 1 1) (stmt 8 19 3 3) (sourceCode ctxPadded) \<noteq> []"
    by code_simp
  have a: "testPadding (stmt 0 6 1 1) (stmt 15 26 2 2) ctxA initial =
     Inr \<lparr>scope = None, reports =
       [\<lparr>report_node = stmt 15 26 2 2,
         report_message = ''Expected blank line before this statement.'',
         report_fix = \<lparr>fix_range = (14, 14), fix_text = [CHR 0x0A]\<rparr>\<rparr>]\<rparr>"
    using testPadding_Always_reports [of 0 ctxA "stmt 0 6 1 1" "stmt 15 26 2 2" _ initial,
        OF _ m1 _ pt(1) lt1] f1 p1
    by (simp add: len initial_def)
  have b: "testPadding (stmt 0 6 1 1) (stmt 8 19 3 3) ctxPadded initial = Inr initial"
    using testPadding_Always_reports [of 0 ctxPadded "stmt 0 6 1 1" "stmt 8 19 3 3" _ initial,
        OF _ m2 _ pt(2) lt2] p2
    by (auto simp: len)
  from a b show ?thesis by simp
qed

lemma getFirstTokenBetween_filter_split:
  "getFirstTokenBetween_filter prevToken ts = (ref, found) \<Longrightarrow>
   \<exists>skipped rest. ts = skipped @ rest \<and> sameLineChain prevToken skipped \<and>
     ref = last (prevToken # skipped) \<and>
     (case rest of
        [] \<Rightarrow> found = None
      | r # _ \<Rightarrow> found = Some r \<and> \<not> areTokensOnSameLine (tok_span ref) (tok_span r))"
proof (induction ts arbitrary: prevToken)
  case Nil
  then show ?case by simp
next
  case (Cons t ts)
  show ?case
  proof (cases "areTokensOnSameLine (tok_span prevToken) (tok_span t)")
    case True
    with Cons.prems have "getFirstTokenBetween_filter t ts = (ref, found)" by simp
    from Cons.IH [OF this] obtain skipped rest where
      sp: "ts = skipped @ rest" "sameLineChain t skipped" "ref = last (t # skipped)"
        "(case rest of [] \<Rightarrow> found = None
          | r # _ \<Rightarrow> found = Some r \<and> \<not> areTokensOnSameLine (tok_span ref) (tok_span r))"
      by blast
    have "t # ts = (t # skipped) @ rest" using sp(1) by simp
    moreover have "sameLineChain prevToken (t # skipped)" using True sp(2) by simp
    moreover have "ref = last (prevToken # t # skipped)" using sp(3) by simp
    ultimately show ?thesis using sp(4) by blast
  next
    case False
    with Cons.prems have r: "ref = prevToken" "found = Some t" by simp_all
    have "t # ts = [] @ (t # ts)" by simp
    moreover have "sameLineChain prevToken []" by simp
    moreover have "ref = last (prevToken # [])" using r by simp
    moreover have "(case t # ts of [] \<Rightarrow> found = None
          | r # _ \<Rightarrow> found = Some r \<and> \<not> areTokensOnSameLine (tok_span ref) (tok_span r))"
      using r False by simp
    ultimately show ?thesis by blast
  qed
qed

lemma report_fix_fn_split:
  assumes "getActualLastToken sc p = Some lastToken"
  shows "\<exists>skipped rest.
     tokensBetween sc (tok_span lastToken) (nspan n) = skipped @ rest \<and>
     sameLineChain lastToken skipped \<and>
     (rest \<noteq> [] \<longrightarrow>
        \<not> areTokensOnSameLine (tok_span (last (lastToken # skipped))) (tok_span (hd rest))) \<and>
     report_fix_fn p n sc =
       Inr \<lparr>fix_range = (range1 (tok_span (last (lastToken # skipped))),
                         range1 (tok_span (last (lastToken # skipped)))),
            fix_text =
              (if areTokensOnSameLine (tok_span (last (lastToken # skipped)))
                    (if rest = [] then nspan n else tok_span (hd rest))
               then [CHR 0x0A, CHR 0x0A] else [CHR 0x0A])\<rparr>"
proof -
  obtain ref found where
    f: "getFirstTokenBetween_filter lastToken (tokensBetween sc (tok_span lastToken) (nspan n)) =
          (ref, found)"
    by (cases "getFirstTokenBetween_filter lastToken
                 (tokensBetween sc (tok_span lastToken) (nspan n))")
  from getFirstTokenBetween_filter_split [OF f] obtain skipped rest where
    sp: "tokensBetween sc (tok_span lastToken) (nspan n) = skipped @ rest"
      "sameLineChain lastToken skipped" "ref = last (lastToken # skipped)"
      "(case rest of [] \<Rightarrow> found = None
        | r # _ \<Rightarrow> found = Some r \<and> \<not> areTokensOnSameLine (tok_span ref) (tok_span r))"
    by blast
  have fx: "report_fix_fn p n sc =
       Inr \<lparr>fix_range = (range1 (tok_span ref), range1 (tok_span ref)),
            fix_text =
              (if areTokensOnSameLine (tok_span ref)
                    (if rest = [] then nspan n else tok_span (hd rest))
               then [CHR 0x0A, CHR 0x0A] else [CHR 0x0A])\<rparr>"
    using assms f sp(4)
    by (cases rest) (simp_all add: report_fix_fn_def insertTextAfter_def)
  have nl: "rest \<noteq> [] \<longrightarrow> \<not> areTokensOnSameLine (tok_span ref) (tok_span (hd rest))"
    using sp(4) by (cases rest) simp_all
  show ?thesis
    using sp(1,2) nl fx unfolding sp(3) by blast
qed

text \<open>
  Claim C2. The tokens and comments between the actual last token of \<open>prevNode\<close> and
  \<open>nextNode\<close> split into \<open>skipped\<close>, each on the line of the one before it (the last
  one reached is the reference token), and \<open>rest\<close>, whose first token is not on the
  reference token's line. The anchor is the first token of \<open>rest\<close>, or \<open>nextNode\<close> when
  \<open>rest\<close> is empty. The text is inserted at the end of the reference token and is two
  line breaks when the anchor is on the reference token's line, one otherwise.
\<close>

theorem report_fix_fn_after_trailing:
  assumes "getActualLastToken sc p = Some lastToken"
  shows "\<exists>skipped rest.
     tokensBetween sc (tok_span lastToken) (nspan n) = skipped @ rest \<and>
     sameLineChain lastToken skipped \<and>
     (rest \<noteq> [] \<longrightarrow>
        \<not> areTokensOnSameLine (tok_span (last (lastToken # skipped))) (tok_span (hd rest))) \<and>
     report_fix_fn p n sc =
       Inr \<lparr>fix_range = (range1 (tok_span (last (lastToken # skipped))),
                         range1 (tok_span (last (lastToken # skipped)))),
            fix_text =
              (if areTokensOnSameLine (tok_span (last (lastToken # skipped)))
                    (if rest = [] then nspan n else tok_span (hd rest))
               then [CHR 0x0A, CHR 0x0A] else [CHR 0x0A])\<rparr>"
  using assms by (rule report_fix_fn_split)

text \<open>In \<open>srcA\<close> the trailing comment is skipped and one line break goes in after it; in
  \<open>srcOneLine\<close> two line breaks go in after the semicolon.\<close>

theorem report_fix_fn_after_trailing_witness:
  "getActualLastToken srcA (stmt 0 6 1 1) = Some (tok ''Punctuator'' '';'' 5 6 1) \<and>
   tokensBetween srcA (tok_span (tok ''Punctuator'' '';'' 5 6 1)) (nspan (stmt 15 26 2 2)) =
     [tok ''Line'' '' note'' 7 14 1] \<and>
   report_fix_fn (stmt 0 6 1 1) (stmt 15 26 2 2) srcA =
     Inr \<lparr>fix_range = (14, 14), fix_text = [CHR 0x0A]\<rparr> \<and>
   getActualLastToken srcOneLine (stmt 0 6 1 1) = Some (tok ''Punctuator'' '';'' 5 6 1) \<and>
   tokensBetween srcOneLine (tok_span (tok ''Punctuator'' '';'' 5 6 1)) (nspan (stmt 6 17 1 1)) = [] \<and>
   report_fix_fn (stmt 0 6 1 1) (stmt 6 17 1 1) srcOneLine =
     Inr \<lparr>fix_range = (6, 6), fix_text = [CHR 0x0A, CHR 0x0A]\<rparr>"
proof -
  have l1: "getActualLastToken srcA (stmt 0 6 1 1) = Some (tok ''Punctuator'' '';'' 5 6 1)"
    by code_simp
  have b1: "tokensBetween srcA (tok_span (tok ''Punctuator'' '';'' 5 6 1)) (nspan (stmt 15 26 2 2)) =
     [tok ''Line'' '' note'' 7 14 1]"
    by code_simp
  have l2: "getActualLastToken srcOneLine (stmt 0 6 1 1) = Some (tok ''Punctuator'' '';'' 5 6 1)"
    by code_simp
  have b2: "tokensBetween srcOneLine (tok_span (tok ''Punctuator'' '';'' 5 6 1)) (nspan (stmt 6 17 1 1)) = []"
    by code_simp
  have f1: "report_fix_fn (stmt 0 6 1 1) (stmt 15 26 2 2) srcA =
     Inr \<lparr>fix_range = (14, 14), fix_text = [CHR 0x0A]\<rparr>"
  proof -
    let ?semi = "tok ''Punctuator'' '';'' 5 6 1" and ?note = "tok ''Line'' '' note'' 7 14 1"
    from report_fix_fn_after_trailing [OF l1, of "stmt 15 26 2 2"] obtain skipped rest where
      sp: "[?note] = skipped @ rest"
        "rest \<noteq> [] \<longrightarrow>
           \<not> areTokensOnSameLine (tok_span (last (?semi # skipped))) (tok_span (hd rest))"
        "report_fix_fn (stmt 0 6 1 1) (stmt 15 26 2 2) srcA =
           Inr \<lparr>fix_range = (range1 (tok_span (last (?semi # skipped))),
                             range1 (tok_span (last (?semi # skipped)))),
                fix_text =
                  (if areTokensOnSameLine (tok_span (last (?semi # skipped)))
                        (if rest = [] then nspan (stmt 15 26 2 2) else tok_span (hd rest))
                   then [CHR 0x0A, CHR 0x0A] else [CHR 0x0A])\<rparr>"
      unfolding b1 by blast
    have "skipped = [?note] \<and> rest = []"
    proof (cases skipped)
      case Nil
      with sp(1) have "rest = [?note]" by simp
      with sp(2) Nil show ?thesis by (simp add: areTokensOnSameLine_def tok_def)
    next
      case (Cons x xs)
      with sp(1) show ?thesis by simp
    qed
    with sp(3) show ?thesis by (simp add: areTokensOnSameLine_def tok_def stmt_def)
  qed
  have f2: "report_fix_fn (stmt 0 6 1 1) (stmt 6 17 1 1) srcOneLine =
     Inr \<lparr>fix_range = (6, 6), fix_text = [CHR 0x0A, CHR 0x0A]\<rparr>"
    using report_fix_fn_after_trailing [OF l2, of "stmt 6 17 1 1"] unfolding b2
    by (auto simp: areTokensOnSameLine_def tok_def stmt_def)
  from l1 b1 f1 l2 b2 f2 show ?thesis by simp
qed

section \<open>The scope tracker and the driver\<close>

lemma paddingTesters_scope:
  "paddingTesters t p n ctx st = Inr st' \<Longrightarrow> scope st' = scope st"
  by (cases t) (auto simp: paddingAlwaysTester_def Let_def split: if_splits sum.splits)

lemma testPadding_loop_scope:
  "testPadding_loop k p n ctx st = Inr st' \<Longrightarrow> scope st' = scope st"
  by (induction k) (auto dest: paddingTesters_scope split: sum.splits bool.splits)

lemma testPadding_scope:
  "testPadding p n ctx st = Inr st' \<Longrightarrow> scope st' = scope st"
  unfolding testPadding_def by (rule testPadding_loop_scope)

lemma set_prevNode_get:
  "set_prevNode n st = Inr st' \<Longrightarrow> get_prevNode st' = Inr (Some n)"
  by (auto simp: set_prevNode_def get_prevNode_def split: option.splits)

lemma set_prevNode_total:
  "scope st \<noteq> None \<Longrightarrow> \<exists>st'. set_prevNode n st = Inr st'"
  by (auto simp: set_prevNode_def split: option.splits)

text \<open>
  Claim C5, as amended. A statement whose parent fails the valid-parent check is skipped:
  \<open>verifyNode\<close> returns at once and the state is as before. When the parent passes the
  check and the visit completes, the current scope's \<open>prevNode\<close> is the node visited; the
  visit fails only outside every scope or when the padding check of the pair throws.
\<close>

theorem verifyNode_prevNode:
  assumes "nparent n = Some parentType"
  shows "(\<not> isValidParent parentType \<longrightarrow> verifyNode n ctx st = Inr st) \<and>
         (isValidParent parentType \<longrightarrow>
            (case verifyNode n ctx st of
               Inr st' \<Rightarrow> get_prevNode st' = Inr (Some n)
             | Inl e \<Rightarrow>
                 scope st = None \<or>
                 (\<exists>prev. get_prevNode st = Inr (Some prev) \<and> testPadding prev n ctx st = Inl e)))"
proof (intro conjI impI)
  assume "\<not> isValidParent parentType"
  then show "verifyNode n ctx st = Inr st"
    using assms by (simp add: verifyNode_def)
next
  assume v: "isValidParent parentType"
  show "case verifyNode n ctx st of
               Inr st' \<Rightarrow> get_prevNode st' = Inr (Some n)
             | Inl e \<Rightarrow>
                 scope st = None \<or>
                 (\<exists>prev. get_prevNode st = Inr (Some prev) \<and> testPadding prev n ctx st = Inl e)"
  proof (cases "scope st")
    case None
    then show ?thesis
      using assms v by (simp add: verifyNode_def get_prevNode_def)
  next
    case (Some sc)
    show ?thesis
    proof (cases "scope_prevNode sc")
      case None
      then show ?thesis
        using assms v Some
        by (simp add: verifyNode_def get_prevNode_def set_prevNode_def)
    next
      case prev: (Some prev)
      show ?thesis
      proof (cases "testPadding prev n ctx st")
        case (Inl e)
        then show ?thesis
          using assms v Some prev by (simp add: verifyNode_def get_prevNode_def)
      next
        case (Inr st1)
        then have "scope st1 = Some sc"
          using testPadding_scope Some by simp
        then show ?thesis
          using assms v Some prev Inr
          by (simp add: verifyNode_def get_prevNode_def set_prevNode_def)
      qed
    qed
  qed
qed

text \<open>In \<^verbatim>\<open>if (x) describe();\<close> the \<open>if\<close> statement becomes \<open>prevNode\<close>; its body is
  skipped.\<close>

theorem verifyNode_prevNode_witness:
  "traverse ctxIf [Program, statement ifStmt] initial = Inr afterIf \<and>
   verifyNode ifBody ctxIf afterIf = Inr afterIf \<and>
   get_prevNode afterIf = Inr (Some ifStmt)"
proof -
  have a: "traverse ctxIf [Program, statement ifStmt] initial = Inr afterIf"
    using verifyNode_prevNode [of ifStmt "''Program''" ctxIf "enter initial"]
    by (auto simp: afterIf_def ifStmt_def isValidParent_def initial_def enter_def
        get_prevNode_def verifyNode_def set_prevNode_def)
  have p: "nparent ifBody = Some ''IfStatement''" by (simp add: ifBody_def)
  have b: "verifyNode ifBody ctxIf afterIf = Inr afterIf"
    using verifyNode_prevNode [OF p, of ctxIf afterIf] by (simp add: isValidParent_def)
  show ?thesis using a b by (simp add: afterIf_def get_prevNode_def)
qed

text \<open>Against claim C5 as stated ("the overwrite happens regardless of the validity check's
  outcome"): after the visit of the body of the \<open>if\<close> statement, \<open>prevNode\<close> is not that
  node.\<close>

theorem verifyNode_invalid_parent_counterexample:
  "verifyNode ifBody ctxIf afterIf = Inr afterIf \<and>
   get_prevNode afterIf \<noteq> Inr (Some ifBody)"
  by (simp add: verifyNode_def ifBody_def ifStmt_def afterIf_def isValidParent_def get_prevNode_def)

text \<open>
  Claim C4 fails on the code as it is. Leaving a block or a switch statement pops the
  scope, but the listener registered for \<open>Program:exit\<close> is \<open>enter\<close>, not \<open>exit\<close>:
  leaving the program root pushes a scope, and the traversal of the empty program ends
  two scopes deep. (\<open>exit\<close> would undo the \<open>enter\<close>.)
\<close>

theorem Program_exit_enters:
  "listener ctx BlockStatement_exit st = exit st \<and>
   listener ctx SwitchStatement_exit st = exit st \<and>
   listener ctx Program_exit st = Inr (enter st) \<and>
   exit (enter st) = Inr st \<and>
   traverse ctx [Program, Program_exit] initial =
     Inr \<lparr>scope = Some (Scope (Some (Scope None None)) None), reports = []\<rparr>"
  by (simp add: enter_def exit_def initial_def)

lemma verifyNode_nth_upper:
  "verifyNode n ctx st = Inr st' \<Longrightarrow> nth_upper (Suc d) (scope st') = nth_upper (Suc d) (scope st)"
  by (auto simp: verifyNode_def get_prevNode_def set_prevNode_def
      dest!: testPadding_scope split: option.splits if_splits sum.splits)

lemma enter_nth_upper: "nth_upper (Suc d) (scope (enter st)) = nth_upper d (scope st)"
  by (simp add: enter_def)

lemma exit_nth_upper:
  "exit st = Inr st' \<Longrightarrow> nth_upper d (scope st') = nth_upper (Suc d) (scope st)"
  by (auto simp: exit_def split: option.splits)

lemma listener_nth_upper:
  assumes "listener ctx e st = Inr st'"
  shows "pushes e \<Longrightarrow> nth_upper (Suc (Suc d)) (scope st') = nth_upper (Suc d) (scope st)"
    and "pops e \<Longrightarrow> nth_upper (Suc d) (scope st') = nth_upper (Suc (Suc d)) (scope st)"
    and "\<not> pushes e \<Longrightarrow> \<not> pops e \<Longrightarrow> nth_upper (Suc d) (scope st') = nth_upper (Suc d) (scope st)"
  using assms
  by (cases e; auto simp: enter_nth_upper exit_nth_upper verifyNode_nth_upper split: sum.splits)+

lemma traverse_nth_upper:
  "staysInside d evs = Some d' \<Longrightarrow> traverse ctx evs st = Inr st' \<Longrightarrow>
   nth_upper (Suc d') (scope st') = nth_upper (Suc d) (scope st)"
proof (induction evs arbitrary: d st)
  case Nil
  then show ?case by simp
next
  case (Cons e evs)
  from Cons.prems(2) obtain st1 where
    l: "listener ctx e st = Inr st1" and t: "traverse ctx evs st1 = Inr st'"
    by (auto split: sum.splits)
  show ?case
  proof (cases "pushes e")
    case True
    with Cons.prems(1) have "staysInside (Suc d) evs = Some d'" by simp
    from Cons.IH [OF this t] listener_nth_upper(1) [OF l True]
    show ?thesis by simp
  next
    case False
    show ?thesis
    proof (cases "pops e")
      case True
      with False Cons.prems(1) obtain d0 where d: "d = Suc d0" "staysInside d0 evs = Some d'"
        by (cases d) auto
      from Cons.IH [OF d(2) t] listener_nth_upper(2) [OF l True]
      show ?thesis using d(1) by simp
    next
      case np: False
      with False Cons.prems(1) have "staysInside d evs = Some d'" by simp
      from Cons.IH [OF this t] listener_nth_upper(3) [OF l False np]
      show ?thesis by simp
    qed
  qed
qed

text \<open>
  Claim C7. Whatever is visited inside a nested scope, deeper scopes included, leaving
  the nested scope gives back the parent scope as it was when the nested scope was
  entered: the same \<open>prevNode\<close>, the same enclosing scopes.
\<close>

theorem scope_isolation:
  assumes "staysInside 0 evs = Some 0"
    and "traverse ctx evs (enter st) = Inr st'"
  shows "\<exists>st''. exit st' = Inr st'' \<and> scope st'' = scope st \<and> get_prevNode st'' = get_prevNode st"
proof -
  have "nth_upper (Suc 0) (scope st') = nth_upper (Suc 0) (scope (enter st))"
    using traverse_nth_upper [OF assms] .
  also have "\<dots> = Some (scope st)" by (simp add: enter_def)
  finally obtain sc where sc: "scope st' = Some sc" "scope_upper sc = scope st"
    by (cases "scope st'") auto
  then have "exit st' = Inr (st'\<lparr>scope := scope st\<rparr>)"
    by (simp add: exit_def)
  then show ?thesis by (simp add: get_prevNode_def)
qed

text \<open>In \<open>srcBlock\<close> the statement inside the block becomes \<open>prevNode\<close> of the block's
  scope; after the block, \<open>prevNode\<close> is the block statement again.\<close>

theorem scope_isolation_witness:
  "traverse ctxBlock [Program, statement (stmt 0 6 1 1), statement blockStmt] initial = Inr afterBlock \<and>
   traverse ctxBlock [statement describeInBlock] (enter afterBlock) = Inr insideBlock \<and>
   get_prevNode insideBlock = Inr (Some describeInBlock) \<and>
   (\<exists>st''. exit insideBlock = Inr st'' \<and> scope st'' = scope afterBlock \<and>
      get_prevNode st'' = Inr (Some blockStmt))"
proof -
  have a: "traverse ctxBlock [Program, statement (stmt 0 6 1 1), statement blockStmt] initial = Inr afterBlock"
    by code_simp
  have b: "traverse ctxBlock [statement describeInBlock] (enter afterBlock) = Inr insideBlock"
    by code_simp
  have s: "staysInside 0 [statement describeInBlock] = Some 0" by simp
  have g: "get_prevNode afterBlock = Inr (Some blockStmt)"
    by (simp add: afterBlock_def get_prevNode_def)
  have c: "get_prevNode insideBlock = Inr (Some describeInBlock)"
    by (simp add: insideBlock_def get_prevNode_def)
  from scope_isolation [OF s b] a b c g show ?thesis by simp
qed

section \<open>Checking again after the fix\<close>

lemma applyFixSpan_simps:
  "range0 (applyFixSpan f s) =
     (if fst (fix_range f) \<le> range0 s then range0 s + length (fix_text f) else range0 s)"
  "range1 (applyFixSpan f s) =
     (if fst (fix_range f) < range1 s then range1 s + length (fix_text f) else range1 s)"
  "start_line (applyFixSpan f s) =
     (if fst (fix_range f) \<le> range0 s then start_line s + count_list (fix_text f) (CHR 0x0A)
      else start_line s)"
  "end_line (applyFixSpan f s) =
     (if fst (fix_range f) < range1 s then end_line s + count_list (fix_text f) (CHR 0x0A)
      else end_line s)"
  by (simp_all add: applyFixSpan_def Let_def)

lemma applyFixSpan_start_le:
  "(range0 (applyFixSpan f a) \<le> range0 (applyFixSpan f b)) = (range0 a \<le> range0 b)"
  by (auto simp: applyFixSpan_simps)

lemma applyFixSpan_end_le:
  "(range1 (applyFixSpan f a) \<le> range1 (applyFixSpan f b)) = (range1 a \<le> range1 b)"
  by (auto simp: applyFixSpan_simps)

lemma applyFixSpan_end_start_le:
  "(range1 (applyFixSpan f a) \<le> range0 (applyFixSpan f b)) = (range1 a \<le> range0 b)"
  by (auto simp: applyFixSpan_simps)

lemma nspan_applyFixNode: "nspan (applyFixNode f n) = applyFixSpan f (nspan n)"
  by (cases n) simp

lemma ntype_applyFixNode: "ntype (applyFixNode f n) = ntype n"
  by (cases n) simp

lemma tok_applyFixToken:
  "tok_span (applyFixToken f t) = applyFixSpan f (tok_span t)"
  "tok_type (applyFixToken f t) = tok_type t"
  "tok_value (applyFixToken f t) = tok_value t"
  by (simp_all add: applyFixToken_def)

lemma isComment_applyFixToken: "isComment (applyFixToken f t) = isComment t"
  by (simp add: isComment_def tok_applyFixToken)

lemma inside_applyFix:
  "inside (applyFixSpan f s) (applyFixToken f t) = inside s t"
  by (simp add: inside_def tok_applyFixToken applyFixSpan_start_le applyFixSpan_end_le)

lemma tokensBetween_applyFix:
  "tokensBetween (applyFixSource f sc) (applyFixSpan f l) (applyFixSpan f r) =
   map (applyFixToken f) (tokensBetween sc l r)"
  by (simp add: tokensBetween_def applyFixSource_def filter_map o_def tok_applyFixToken
      applyFixSpan_end_start_le)

lemma getFirstToken_applyFix:
  "getFirstToken (applyFixSource f sc) (applyFixNode f n) =
   map_option (applyFixToken f) (getFirstToken sc n)"
  by (simp add: getFirstToken_def applyFixSource_def filter_map o_def nspan_applyFixNode
      inside_applyFix isComment_applyFixToken split: list.splits)

lemma digLabeled_applyFix:
  "digLabeled (applyFixNode f n) = map_sum id (applyFixNode f) (digLabeled n)"
  by (induction n rule: digLabeled.induct) (auto split: option.splits)

lemma createTokenTester_applyFix:
  "createTokenTester name (applyFixNode f n) (applyFixSource f sc) = createTokenTester name n sc"
  by (simp add: createTokenTester_def getFirstToken_applyFix ntype_applyFixNode tok_applyFixToken
      split: option.splits)

lemma statementTesters_applyFix:
  "statementTesters t (applyFixNode f n) (applyFixSource f sc) = statementTesters t n sc"
  by (cases t) (simp_all add: createTokenTester_applyFix)

lemma nodeMatchesSingle_applyFix:
  "nodeMatchesSingle (applyFixNode f n) t (applyFixSource f sc) = nodeMatchesSingle n t sc"
  by (cases "digLabeled n")
     (simp_all add: nodeMatchesSingle_def digLabeled_applyFix statementTesters_applyFix)

lemma nodeMatchesType_applyFix:
  "nodeMatchesType (applyFixNode f n) ts (applyFix f ctx) = nodeMatchesType n ts ctx"
  by (cases "digLabeled n"; cases ts)
     (simp_all add: nodeMatchesType_def digLabeled_applyFix statementTesters_applyFix
        nodeMatchesSingle_applyFix applyFix_def)

lemma ruleMatches_applyFix:
  "ruleMatches c (applyFixNode f p) (applyFixNode f n) (applyFix f ctx) = ruleMatches c p n ctx"
  by (simp add: ruleMatches_def nodeMatchesType_applyFix split: sum.splits bool.splits)

lemma testPadding_loop_no_report:
  "paddingAlwaysTester p' n' ctx' st0 = Inr st0 \<Longrightarrow>
   (\<And>i. i < k \<Longrightarrow> ruleMatches (configs ctx' ! i) p' n' ctx' = ruleMatches (configs ctx ! i) p n ctx) \<Longrightarrow>
   (\<And>i. i < k \<Longrightarrow> paddingType (configs ctx' ! i) = paddingType (configs ctx ! i)) \<Longrightarrow>
   testPadding_loop k p n ctx st = Inr st' \<Longrightarrow>
   testPadding_loop k p' n' ctx' st0 = Inr st0"
proof (induction k)
  case 0
  then show ?case by simp
next
  case (Suc k)
  have rm: "ruleMatches (configs ctx' ! k) p' n' ctx' = ruleMatches (configs ctx ! k) p n ctx"
    and pt: "paddingType (configs ctx' ! k) = paddingType (configs ctx ! k)"
    using Suc.prems(2,3) by simp_all
  show ?case
  proof (cases "ruleMatches (configs ctx ! k) p n ctx")
    case (Inl e)
    with Suc.prems(4) show ?thesis by simp
  next
    case (Inr b)
    show ?thesis
    proof (cases b)
      case True
      show ?thesis
        using Inr True rm pt Suc.prems(1)
        by (cases "paddingType (configs ctx ! k)") simp_all
    next
      case False
      with Inr Suc.prems(4) have "testPadding_loop k p n ctx st = Inr st'" by simp
      then have "testPadding_loop k p' n' ctx' st0 = Inr st0"
        using Suc.IH Suc.prems(1,2,3) by simp
      then show ?thesis using Inr False rm by simp
    qed
  qed
qed

lemma zip_tl_mem: "(a, b) \<in> set (zip (xs @ a # b # ys) (tl (xs @ a # b # ys)))"
proof (induction xs)
  case Nil
  then show ?case by simp
next
  case (Cons x xs)
  then show ?case by (cases xs) auto
qed

lemma getActualLastToken_mem:
  "getActualLastToken sc p = Some t \<Longrightarrow> t \<in> set (tokensAndComments sc)"
proof -
  assume a: "getActualLastToken sc p = Some t"
  let ?xs = "filter (\<lambda>t. \<not> isComment t \<and> inside (nspan p) t) (tokensAndComments sc)"
  from a have "t \<in> set (rev ?xs)"
    unfolding getActualLastToken_def by (cases "rev ?xs") auto
  then show ?thesis by auto
qed

lemma getFirstToken_mem:
  "getFirstToken sc n = Some t \<Longrightarrow> t \<in> set (tokensAndComments sc)"
proof -
  assume a: "getFirstToken sc n = Some t"
  let ?xs = "filter (\<lambda>t. \<not> isComment t \<and> inside (nspan n) t) (tokensAndComments sc)"
  from a have "t \<in> set ?xs"
    unfolding getFirstToken_def by (cases ?xs) auto
  then show ?thesis by auto
qed

lemma tokensLaidOut_lines:
  "tokensLaidOut sc \<Longrightarrow> s \<in> set (tokensAndComments sc) \<Longrightarrow> t \<in> set (tokensAndComments sc) \<Longrightarrow>
   range1 (tok_span s) \<le> range0 (tok_span t) \<Longrightarrow> end_line (tok_span s) \<le> start_line (tok_span t)"
  by (auto simp: tokensLaidOut_def list_all_iff)

lemma tokensBetween_sorted:
  "tokensLaidOut sc \<Longrightarrow>
   sorted_wrt (\<lambda>s t. range1 (tok_span s) \<le> range0 (tok_span t)) (tokensBetween sc l r)"
  by (simp add: tokensLaidOut_def tokensBetween_def sorted_wrt_filter)

lemma tokensBetween_mem:
  "t \<in> set (tokensBetween sc l r) \<Longrightarrow>
   t \<in> set (tokensAndComments sc) \<and> range1 l \<le> range0 (tok_span t) \<and> range1 (tok_span t) \<le> range0 r"
  by (simp add: tokensBetween_def)

lemma stops_split:
  "\<exists>xs ys. p # map tok_span (skipped @ rest) @ [n] =
     xs @ (if skipped = [] then p else tok_span (last skipped))
        # (if rest = [] then n else tok_span (hd rest)) # ys"
proof (cases skipped rule: rev_cases)
  case Nil
  show ?thesis
  proof (cases rest)
    case r: Nil
    show ?thesis
      by (rule exI [of _ "[]"], rule exI [of _ "[]"]) (simp add: Nil r)
  next
    case (Cons r rs)
    show ?thesis
      by (rule exI [of _ "[]"], rule exI [of _ "map tok_span rs @ [n]"]) (simp add: Nil Cons)
  qed
next
  case (snoc sk x)
  show ?thesis
  proof (cases rest)
    case Nil
    show ?thesis
      by (rule exI [of _ "p # map tok_span sk"], rule exI [of _ "[]"]) (simp add: Nil snoc)
  next
    case (Cons r rs)
    show ?thesis
      by (rule exI [of _ "p # map tok_span sk"], rule exI [of _ "map tok_span rs @ [n]"])
         (simp add: snoc Cons)
  qed
qed

lemma padding_after_fix:
  assumes lay: "tokensLaidOut sc"
    and lt: "getActualLastToken sc p = Some lastToken"
    and pend: "range1 (tok_span lastToken) = range1 (nspan p)"
      "end_line (tok_span lastToken) = end_line (nspan p)"
    and ft: "getFirstToken sc n = Some firstToken"
    and nstart: "range0 (tok_span firstToken) = range0 (nspan n)"
      "start_line (tok_span firstToken) = start_line (nspan n)"
    and ord: "range1 (nspan p) \<le> range0 (nspan n)"
    and fx: "report_fix_fn p n sc = Inr f"
  shows "getPaddingLineSequences (applyFixNode f p) (applyFixNode f n) (applyFixSource f sc) \<noteq> []"
proof -
  let ?T = "tokensAndComments sc"
  from report_fix_fn_split [OF lt, of n] obtain skipped rest where
    sp: "tokensBetween sc (tok_span lastToken) (nspan n) = skipped @ rest"
    and nl: "rest \<noteq> [] \<longrightarrow>
        \<not> areTokensOnSameLine (tok_span (last (lastToken # skipped))) (tok_span (hd rest))"
    and fx': "report_fix_fn p n sc =
       Inr \<lparr>fix_range = (range1 (tok_span (last (lastToken # skipped))),
                         range1 (tok_span (last (lastToken # skipped)))),
            fix_text =
              (if areTokensOnSameLine (tok_span (last (lastToken # skipped)))
                    (if rest = [] then nspan n else tok_span (hd rest))
               then [CHR 0x0A, CHR 0x0A] else [CHR 0x0A])\<rparr>"
    by blast
  define ref where "ref = last (lastToken # skipped)"
  define a where "a = (if skipped = [] then nspan p else tok_span (last skipped))"
  define b where "b = (if rest = [] then nspan n else tok_span (hd rest))"
  have f: "f = \<lparr>fix_range = (range1 (tok_span ref), range1 (tok_span ref)),
            fix_text = (if areTokensOnSameLine (tok_span ref) b
               then [CHR 0x0A, CHR 0x0A] else [CHR 0x0A])\<rparr>"
    using fx fx' by (simp add: ref_def b_def)
  have between: "tokensBetween sc (nspan p) (nspan n) = skipped @ rest"
    using sp by (simp add: tokensBetween_def pend(1))
  have memB: "\<And>t. t \<in> set (skipped @ rest) \<Longrightarrow>
      t \<in> set ?T \<and> range1 (tok_span lastToken) \<le> range0 (tok_span t) \<and>
      range1 (tok_span t) \<le> range0 (nspan n)"
    using tokensBetween_mem [of _ sc "tok_span lastToken" "nspan n"] sp by simp
  have sorted: "sorted_wrt (\<lambda>s t. range1 (tok_span s) \<le> range0 (tok_span t)) (skipped @ rest)"
    using tokensBetween_sorted [OF lay, of "tok_span lastToken" "nspan n"] sp by simp
  have ltT: "lastToken \<in> set ?T" using lt by (rule getActualLastToken_mem)
  have ftT: "firstToken \<in> set ?T" using ft by (rule getFirstToken_mem)
  have refT: "ref \<in> set ?T"
    using ltT memB by (cases skipped rule: rev_cases) (auto simp: ref_def)
  have a_ref: "range1 a = range1 (tok_span ref)" "end_line a = end_line (tok_span ref)"
    using pend by (auto simp: a_def ref_def)
  \<comment> \<open>the anchor starts after the reference token, in characters and in lines\<close>
  have ref_n: "range1 (tok_span ref) \<le> range0 (nspan n)"
    using memB pend(1) ord by (cases skipped rule: rev_cases) (auto simp: ref_def)
  have ref_b: "range1 (tok_span ref) \<le> range0 b"
  proof (cases rest)
    case Nil
    then show ?thesis using ref_n by (simp add: b_def)
  next
    case (Cons r rs)
    show ?thesis
    proof (cases skipped rule: rev_cases)
      case Nil
      then show ?thesis using memB [of r] Cons by (simp add: b_def ref_def)
    next
      case (snoc sk x)
      then show ?thesis using sorted Cons by (simp add: b_def ref_def sorted_wrt_append)
    qed
  qed
  have lines: "end_line (tok_span ref) \<le> start_line b"
  proof (cases rest)
    case Nil
    have "end_line (tok_span ref) \<le> start_line (tok_span firstToken)"
      using tokensLaidOut_lines [OF lay refT ftT] ref_n nstart(1) by simp
    then show ?thesis using Nil nstart(2) by (simp add: b_def)
  next
    case (Cons r rs)
    then have "r \<in> set ?T" using memB [of r] by simp
    from tokensLaidOut_lines [OF lay refT this] ref_b Cons
    show ?thesis by (simp add: b_def)
  qed
  \<comment> \<open>the walk of \<open>getPaddingLineSequences\<close> over the fixed source passes from \<open>a\<close> to \<open>b\<close>\<close>
  obtain xs ys where stops:
    "nspan p # map tok_span (skipped @ rest) @ [nspan n] = xs @ a # b # ys"
    using stops_split [of "nspan p" skipped rest "nspan n"] unfolding a_def b_def by blast
  let ?sh = "applyFixSpan f"
  have stops': "nspan (applyFixNode f p)
          # map tok_span (tokensBetween (applyFixSource f sc) (nspan (applyFixNode f p))
                            (nspan (applyFixNode f n)))
          @ [nspan (applyFixNode f n)] =
        map ?sh xs @ ?sh a # ?sh b # map ?sh ys"
  proof -
    have "nspan (applyFixNode f p)
          # map tok_span (tokensBetween (applyFixSource f sc) (nspan (applyFixNode f p))
                            (nspan (applyFixNode f n)))
          @ [nspan (applyFixNode f n)] =
        map ?sh (nspan p # map tok_span (skipped @ rest) @ [nspan n])"
      by (simp add: nspan_applyFixNode tokensBetween_applyFix between o_def tok_applyFixToken)
    then show ?thesis unfolding stops by simp
  qed
  have gap: "end_line (?sh a) + 2 \<le> start_line (?sh b)"
  proof (cases "areTokensOnSameLine (tok_span ref) b")
    case True
    then show ?thesis
      using a_ref ref_b by (simp add: applyFixSpan_simps f areTokensOnSameLine_def)
  next
    case False
    then show ?thesis
      using a_ref ref_b lines by (simp add: applyFixSpan_simps f areTokensOnSameLine_def)
  qed
  have "(?sh a, ?sh b) \<in> set (zip (map ?sh xs @ ?sh a # ?sh b # map ?sh ys)
                                  (tl (map ?sh xs @ ?sh a # ?sh b # map ?sh ys)))"
    by (rule zip_tl_mem)
  then show ?thesis
    using gap unfolding getPaddingLineSequences_def Let_def stops'
    by (auto simp: filter_empty_conv)
qed

text \<open>
  Claim C8. Take a source whose tokens are laid out in order, a \<open>prevNode\<close> that ends
  where its last token ends and a \<open>nextNode\<close> after it that starts where its first token
  starts. If checking the pair added a report \<open>r\<close>, then \<open>r\<close> carries the fix computed
  for the pair, and checking the pair again in the source with that fix applied reports
  nothing.
\<close>

theorem fix_then_recheck:
  assumes "tokensLaidOut (sourceCode ctx)"
    and "getActualLastToken (sourceCode ctx) p = Some lastToken"
    and "range1 (tok_span lastToken) = range1 (nspan p)"
    and "end_line (tok_span lastToken) = end_line (nspan p)"
    and "getFirstToken (sourceCode ctx) n = Some firstToken"
    and "range0 (tok_span firstToken) = range0 (nspan n)"
    and "start_line (tok_span firstToken) = start_line (nspan n)"
    and "range1 (nspan p) \<le> range0 (nspan n)"
    and "testPadding p n ctx st = Inr st'"
    and "reports st' = reports st @ [r]"
  shows "report_fix_fn p n (sourceCode ctx) = Inr (report_fix r) \<and>
         testPadding (applyFixNode (report_fix r) p) (applyFixNode (report_fix r) n)
           (applyFix (report_fix r) ctx) st0 = Inr st0"
proof -
  let ?f = "report_fix r"
  have "st' = st \<or>
   (\<exists>f. report_fix_fn p n (sourceCode ctx) = Inr f \<and>
        st' = st\<lparr>reports := reports st @
                 [\<lparr>report_node = n,
                   report_message = ''Expected blank line before this statement.'',
                   report_fix = f\<rparr>]\<rparr>)"
    using assms(9) unfolding testPadding_def by (rule testPadding_loop_result)
  with assms(10) have fx: "report_fix_fn p n (sourceCode ctx) = Inr ?f"
    by auto
  have "getPaddingLineSequences (applyFixNode ?f p) (applyFixNode ?f n)
          (applyFixSource ?f (sourceCode ctx)) \<noteq> []"
    using assms(1-8) fx by (rule padding_after_fix)
  then have ok: "paddingAlwaysTester (applyFixNode ?f p) (applyFixNode ?f n) (applyFix ?f ctx) st0 = Inr st0"
    by (simp add: paddingAlwaysTester_def applyFix_def)
  have "testPadding_loop (length (configs ctx)) (applyFixNode ?f p) (applyFixNode ?f n)
          (applyFix ?f ctx) st0 = Inr st0"
    using ok
  proof (rule testPadding_loop_no_report)
    show "testPadding_loop (length (configs ctx)) p n ctx st = Inr st'"
      using assms(9) by (simp add: testPadding_def)
  qed (simp_all add: ruleMatches_applyFix, simp_all add: applyFix_def)
  then have "testPadding (applyFixNode ?f p) (applyFixNode ?f n) (applyFix ?f ctx) st0 = Inr st0"
    by (simp add: testPadding_def applyFix_def)
  with fx show ?thesis by simp
qed

text \<open>\<open>srcA\<close> gets \<open>reportA\<close>; with \<open>fixA\<close> applied \<^verbatim>\<open>describe();\<close> is on line 3, an
  empty line lies before it, and the check reports nothing.\<close>

theorem fix_then_recheck_witness:
  "tokensLaidOut srcA \<and>
   testPadding (stmt 0 6 1 1) (stmt 15 26 2 2) ctxA initial =
     Inr \<lparr>scope = None, reports = [reportA]\<rparr> \<and>
   applyFixNode fixA (stmt 0 6 1 1) = stmt 0 6 1 1 \<and>
   applyFixNode fixA (stmt 15 26 2 2) = stmt 16 27 3 3 \<and>
   getPaddingLineSequences (stmt 0 6 1 1) (stmt 16 27 3 3) (applyFixSource fixA srcA) \<noteq> [] \<and>
   testPadding (stmt 0 6 1 1) (stmt 16 27 3 3) (applyFix fixA ctxA) initial = Inr initial"
proof -
  have lay: "tokensLaidOut (sourceCode ctxA)" by code_simp
  have lt: "getActualLastToken (sourceCode ctxA) (stmt 0 6 1 1) = Some (tok ''Punctuator'' '';'' 5 6 1)"
    by code_simp
  have ft: "getFirstToken (sourceCode ctxA) (stmt 15 26 2 2) = Some (tok ''Identifier'' ''describe'' 15 23 2)"
    by code_simp
  have t: "testPadding (stmt 0 6 1 1) (stmt 15 26 2 2) ctxA initial =
     Inr \<lparr>scope = None, reports = [reportA]\<rparr>"
    by code_simp
  have p': "applyFixNode fixA (stmt 0 6 1 1) = stmt 0 6 1 1" by code_simp
  have n': "applyFixNode fixA (stmt 15 26 2 2) = stmt 16 27 3 3" by code_simp
  have g: "getPaddingLineSequences (stmt 0 6 1 1) (stmt 16 27 3 3) (applyFixSource fixA srcA) \<noteq> []"
    by code_simp
  have r: "report_fix reportA = fixA" by (simp add: reportA_def)
  have "testPadding (applyFixNode (report_fix reportA) (stmt 0 6 1 1))
          (applyFixNode (report_fix reportA) (stmt 15 26 2 2))
          (applyFix (report_fix reportA) ctxA) initial = Inr initial"
    using fix_then_recheck [OF lay lt _ _ ft _ _ _ t, of reportA initial]
    by (simp add: tok_def stmt_def initial_def)
  then have t': "testPadding (stmt 0 6 1 1) (stmt 16 27 3 3) (applyFix fixA ctxA) initial = Inr initial"
    unfolding r p' n' .
  have lay': "tokensLaidOut srcA" using lay by (simp add: ctxA_def)
  from lay' t p' n' g t' show ?thesis by (intro conjI)
qed

end
